theory Spec2Isabelle
  imports Complex_Main
begin

section \<open>The citation-graph crawler (scripts/crawler.py)\<close>

text \<open>
  A shallow embedding of the crawler worker. Everything the Python does beyond computing a
  value is explicit: exceptions are the left summand of a result, the clock, Redis and
  PostgreSQL are state that is passed along, and the answers of the outside world (HTTP
  responses, deadlocks reported by the database, elapsed time) are arguments.
\<close>

subsection \<open>Constants of the module\<close>

definition API_ROOT :: string where
  "API_ROOT = ''https://api.semanticscholar.org/graph/v1''"

definition MAX_REQUEST_ATTEMPTS :: nat where
  "MAX_REQUEST_ATTEMPTS = 5"

definition REF_PAGE_LIMIT :: int where
  "REF_PAGE_LIMIT = 99"

definition MAX_INSERT_RETRIES :: nat where
  "MAX_INSERT_RETRIES = 3"

definition INSERT_BACKOFF :: real where
  "INSERT_BACKOFF = 1.0"

definition MAX_MARK_RETRIES :: nat where
  "MAX_MARK_RETRIES = 3"

definition BLOOM_NAME :: string where
  "BLOOM_NAME = ''processed_bloom''"

definition QUEUE_BLOOM_NAME :: string where
  "QUEUE_BLOOM_NAME = ''queued_bloom''"

definition REDIS_QUEUE :: string where
  "REDIS_QUEUE = ''paper_queue''"

subsection \<open>Python exceptions\<close>

text \<open>
  The exceptions the modelled code can raise. \<open>HTTPError\<close> is what
  \<^verbatim>\<open>Response.raise_for_status\<close> raises; in the requests library it is a subclass of
  \<open>RequestException\<close>, and so are the connection and timeout errors, which the model does
  not tell apart from their base class.
\<close>

datatype exn =
    RequestException
  | HTTPError int
  | JSONDecodeError
  | ValueError
  | OverflowError
  | OSError
  | IndexError
  | AttributeError
  | TypeError
  | ResponseError
  | DeadlockDetected
  | DatabaseError

text \<open>\<^verbatim>\<open>isinstance(e, requests.RequestException)\<close>.\<close>

fun is_request_exception :: "exn \<Rightarrow> bool" where
  "is_request_exception RequestException = True"
| "is_request_exception (HTTPError _) = True"
| "is_request_exception _ = False"

subsection \<open>The rate limiter\<close>





text \<open>
  The checks of \<^verbatim>\<open>time.sleep(d)\<close> on its argument: CPython first converts the duration
  to a signed 64-bit count of nanoseconds, which raises OverflowError when it does not
  fit, and then raises ValueError for a negative duration. \<open>Inr ()\<close> means that the
  duration is accepted.
\<close>

definition time_sleep :: "real \<Rightarrow> exn + unit" where
  "time_sleep d =
     (if d * 10 ^ 9 < - (2 ^ 63) \<or> 2 ^ 63 - 1 < d * 10 ^ 9 then Inl OverflowError
      else if d < 0 then Inl ValueError
      else Inr ())"

text \<open>
  \<^verbatim>\<open>time.sleep(d)\<close> when the monotonic clock of the host reads \<open>clock\<close> seconds. After
  the checks on its argument, CPython 3.11 on Linux adds the duration to the reading of the
  monotonic clock, both as signed 64-bit counts of nanoseconds, and sleeps until that
  deadline; when the sum does not fit, the deadline wraps to a negative value and the
  operating system rejects it, which raises OSError (errno 22). \<open>Inr ()\<close> means that the
  call sleeps.
\<close>

definition time_sleep_at :: "real \<Rightarrow> real \<Rightarrow> exn + unit" where
  "time_sleep_at clock d =
     (case time_sleep d of
        Inl x \<Rightarrow> Inl x
      | Inr _ \<Rightarrow> if 2 ^ 63 - 1 < (clock + d) * 10 ^ 9 then Inl OSError else Inr ())"



subsection \<open>JSON values as Python sees them\<close>

text \<open>
  The value \<^verbatim>\<open>resp.json()\<close> returns. An object is the dict after parsing, so its keys are
  distinct; \<open>JFloat\<close> is a number with a fraction or an exponent.
\<close>

datatype json =
    JNull
  | JBool bool
  | JInt int
  | JFloat real
  | JStr string
  | JArr "json list"
  | JObj "(string \<times> json) list"

text \<open>Truth value of a Python object (\<^verbatim>\<open>if x:\<close>, \<^verbatim>\<open>if not x:\<close>).\<close>

fun truthy :: "json \<Rightarrow> bool" where
  "truthy JNull = False"
| "truthy (JBool b) = b"
| "truthy (JInt i) = (i \<noteq> 0)"
| "truthy (JFloat x) = (x \<noteq> 0)"
| "truthy (JStr s) = (s \<noteq> [])"
| "truthy (JArr xs) = (xs \<noteq> [])"
| "truthy (JObj kvs) = (kvs \<noteq> [])"

text \<open>\<^verbatim>\<open>x.get(key, default)\<close>: only a dict has the method.\<close>

fun dict_get :: "json \<Rightarrow> string \<Rightarrow> json \<Rightarrow> exn + json" where
  "dict_get (JObj kvs) k d = Inr (case map_of kvs k of None \<Rightarrow> d | Some v \<Rightarrow> v)"
| "dict_get _ k d = Inl AttributeError"

text \<open>
  \<^verbatim>\<open>for entry in x\<close>: a list gives its elements, a dict its keys, a string its
  characters; nothing else is iterable.
\<close>

fun py_iter :: "json \<Rightarrow> exn + json list" where
  "py_iter (JArr xs) = Inr xs"
| "py_iter (JObj kvs) = Inr (map (\<lambda>kv. JStr (fst kv)) kvs)"
| "py_iter (JStr s) = Inr (map (\<lambda>c. JStr [c]) s)"
| "py_iter _ = Inl TypeError"

text \<open>
  \<^verbatim>\<open>isinstance(x, int)\<close> and the integer that \<open>x\<close> then is: \<^verbatim>\<open>bool\<close> is a subclass of
  \<^verbatim>\<open>int\<close> in Python, with \<^verbatim>\<open>True == 1\<close> and \<^verbatim>\<open>False == 0\<close>.
\<close>

fun isinstance_int :: "json \<Rightarrow> bool" where
  "isinstance_int (JInt _) = True"
| "isinstance_int (JBool _) = True"
| "isinstance_int _ = False"

fun int_value :: "json \<Rightarrow> int" where
  "int_value (JInt n) = n"
| "int_value (JBool b) = (if b then 1 else 0)"
| "int_value _ = 0"

subsection \<open>\<^verbatim>\<open>int(s)\<close> on a string\<close>

text \<open>
  Python's \<^verbatim>\<open>int\<close> strips white space, takes an optional sign and then decimal digits,
  which single underscores may separate. Header values are Latin-1 text, whose only
  decimal digits are the ASCII ones; the white space that \<^verbatim>\<open>int\<close> strips there is tab,
  line feed, vertical tab, form feed, carriage return, space, and the Latin-1 characters
  0x85 and 0xA0. CPython 3.11 and later refuses a string of more than 4300 digits
  (\<^verbatim>\<open>sys.int_max_str_digits\<close>). \<open>None\<close> stands for ValueError.
\<close>

definition MAX_STR_DIGITS :: nat where
  "MAX_STR_DIGITS = 4300"

definition is_space :: "char \<Rightarrow> bool" where
  "is_space c = ((of_char c :: nat) \<in> {9, 10, 11, 12, 13, 32, 133, 160})"

definition is_digit :: "char \<Rightarrow> bool" where
  "is_digit c = (48 \<le> (of_char c :: nat) \<and> (of_char c :: nat) \<le> 57)"

definition digit_value :: "char \<Rightarrow> int" where
  "digit_value c = int (of_char c) - 48"

definition strip :: "string \<Rightarrow> string" where
  "strip s = rev (dropWhile is_space (rev (dropWhile is_space s)))"

fun parse_digits :: "int \<Rightarrow> string \<Rightarrow> int option" where
  "parse_digits acc [] = Some acc"
| "parse_digits acc [c] = (if is_digit c then Some (10 * acc + digit_value c) else None)"
| "parse_digits acc (c # d # ds) =
     (if is_digit c then parse_digits (10 * acc + digit_value c) (d # ds)
      else if c = CHR ''_'' \<and> is_digit d then parse_digits (10 * acc + digit_value d) ds
      else None)"

definition py_int :: "string \<Rightarrow> int option" where
  "py_int s =
     (let t = strip s;
          neg = (t \<noteq> [] \<and> hd t = CHR ''-'');
          u = (if t \<noteq> [] \<and> (hd t = CHR ''-'' \<or> hd t = CHR ''+'') then tl t else t)
      in if length (filter is_digit u) > MAX_STR_DIGITS then None
         else
           (case u of
              [] \<Rightarrow> None
            | c # cs \<Rightarrow>
                if is_digit c
                then map_option (\<lambda>v. if neg then - v else v) (parse_digits (digit_value c) cs)
                else None))"

subsection \<open>HTTP requests, responses and the event log\<close>

record request =
  req_method :: string
  req_url :: string
  req_params :: "(string \<times> json) list"
  req_json :: "json option"

text \<open>
  What the code reads of a response: the status, \<^verbatim>\<open>headers.get("Retry-After")\<close> and the
  body (\<open>None\<close> when it is not JSON, so that \<^verbatim>\<open>resp.json()\<close> raises). With them comes
  what the monotonic clock of the host reads, in seconds, while the response is handled:
  a \<^verbatim>\<open>time.sleep\<close> on behalf of the response computes its deadline from it.
\<close>

record response =
  status_code :: int
  retry_after :: "string option"
  body :: "json option"
  clock_monotonic :: real

text \<open>
  What \<^verbatim>\<open>sess.request\<close> does on one call: it raises a RequestException (no connection,
  timeout) or returns a response.
\<close>

datatype http_result = NetworkFailure | Response response

text \<open>
  The effects of the program, in the order in which they happen. \<open>EvSleep\<close> is a
  \<^verbatim>\<open>time.sleep\<close> of the program itself, \<open>EvRetryWait\<close> is the pause of the retry
  decorator between two attempts.
\<close>

datatype event =
    EvAcquire
  | EvHttp request
  | EvSleep real
  | EvRetryWait real
  | EvInitDb
  | EvTruncate
  | EvInsertCitations "(string \<times> string) list"
  | EvInsertProcessed "(string \<times> string list) list"
  | EvSelectProcessed "string list"
  | EvCommit
  | EvRollback
  | EvRedisDelete string
  | EvBfReserve string
  | EvBfMexists string "string list"
  | EvBfMadd string "string list"
  | EvLlen string
  | EvRpush string "json list"

subsection \<open>\<^verbatim>\<open>send_request\<close>\<close>

text \<open>
  \<^verbatim>\<open>Response.raise_for_status\<close> of the requests library raises HTTPError for a status
  from 400 to 599 and returns otherwise.
\<close>

definition raise_for_status :: "response \<Rightarrow> exn + unit" where
  "raise_for_status resp =
     (if 400 \<le> status_code resp \<and> status_code resp < 600
      then Inl (HTTPError (status_code resp)) else Inr ())"

text \<open>
  The body of \<^verbatim>\<open>send_request\<close>, one attempt. The \<^verbatim>\<open>except ValueError: pass\<close> covers both
  \<^verbatim>\<open>int(retry_after)\<close> and \<^verbatim>\<open>time.sleep(wait_time)\<close>; any other exception of the sleep
  (OverflowError, OSError) leaves the function.
\<close>

definition send_request_once :: "request \<Rightarrow> http_result \<Rightarrow> event list \<times> (exn + response)" where
  "send_request_once rq res =
     (case res of
        NetworkFailure \<Rightarrow> ([EvAcquire, EvHttp rq], Inl RequestException)
      | Response resp \<Rightarrow>
          if status_code resp \<in> {429, 500} then
            (case retry_after resp of
               None \<Rightarrow> ([EvAcquire, EvHttp rq], Inl RequestException)
             | Some ra \<Rightarrow>
                 if ra = [] then ([EvAcquire, EvHttp rq], Inl RequestException)
                 else
                   (case py_int ra of
                      None \<Rightarrow> ([EvAcquire, EvHttp rq], Inl RequestException)
                    | Some wait_time \<Rightarrow>
                        (case time_sleep_at (clock_monotonic resp) (real_of_int wait_time) of
                           Inr _ \<Rightarrow>
                             ([EvAcquire, EvHttp rq, EvSleep (real_of_int wait_time)],
                              Inl RequestException)
                         | Inl x \<Rightarrow>
                             if x = ValueError then ([EvAcquire, EvHttp rq], Inl RequestException)
                             else ([EvAcquire, EvHttp rq], Inl x))))
          else
            (case raise_for_status resp of
               Inl x \<Rightarrow> ([EvAcquire, EvHttp rq], Inl x)
             | Inr _ \<Rightarrow> ([EvAcquire, EvHttp rq], Inr resp)))"

text \<open>
  The decorator \<^verbatim>\<open>@retry(retry=retry_if_exception_type(requests.RequestException),
  stop=stop_after_attempt(MAX_REQUEST_ATTEMPTS), wait=wait_exponential(multiplier=1, min=1,
  max=30), reraise=True)\<close> of the tenacity library. After a failed attempt number \<open>n\<close> it
  waits \<open>max (max 0 min) (min (multiplier * 2 ^ (n - 1)) max)\<close> seconds.
\<close>

definition wait_exponential :: "nat \<Rightarrow> real" where
  "wait_exponential n = max (max 0 1) (min (1 * 2 ^ (n - 1)) 30)"

text \<open>
  \<open>retrying env rq n\<close> runs attempt number \<open>n\<close> and those after it; \<open>env k\<close> is what the
  network does at attempt \<open>k\<close>. An attempt that returns ends the loop; so does an exception
  that is no RequestException, and so does a RequestException at an attempt number that
  has reached \<open>MAX_REQUEST_ATTEMPTS\<close>, which is raised again.
\<close>

function retrying :: "(nat \<Rightarrow> http_result) \<Rightarrow> request \<Rightarrow> nat \<Rightarrow> event list \<times> (exn + response)" where
  "retrying env rq n =
     (case send_request_once rq (env n) of
        (evs, Inr resp) \<Rightarrow> (evs, Inr resp)
      | (evs, Inl x) \<Rightarrow>
          if \<not> is_request_exception x then (evs, Inl x)
          else if n \<ge> MAX_REQUEST_ATTEMPTS then (evs, Inl x)
          else (case retrying env rq (Suc n) of
                  (evs', r) \<Rightarrow> (evs @ EvRetryWait (wait_exponential n) # evs', r)))"
  by pat_completeness auto
termination
  by (relation "measure (\<lambda>(env, rq, n). MAX_REQUEST_ATTEMPTS - n)") auto

declare retrying.simps [simp del]

definition send_request :: "(nat \<Rightarrow> http_result) \<Rightarrow> request \<Rightarrow> event list \<times> (exn + response)" where
  "send_request env rq = retrying env rq 1"

subsection \<open>\<^verbatim>\<open>fetch_pages\<close>\<close>

definition MAX_OFFSET :: int where
  "MAX_OFFSET = 9999"

text \<open>
  The request of one page:
  \<^verbatim>\<open>send_request(sess, "GET", f"{API_ROOT}/paper/{pid}/references",
  params={"fields": "paperId", "limit": REF_PAGE_LIMIT, "offset": offset})\<close>.
\<close>

definition references_request :: "string \<Rightarrow> int \<Rightarrow> request" where
  "references_request pid offset =
     \<lparr>req_method = ''GET'',
      req_url = API_ROOT @ ''/paper/'' @ pid @ ''/references'',
      req_params = [(''fields'', JStr ''paperId''), (''limit'', JInt REF_PAGE_LIMIT),
                    (''offset'', JInt offset)],
      req_json = None\<rparr>"

text \<open>
  What the outside world does during the pagination of one paper. No offset is requested
  twice, so both are indexed by the offset of the iteration: whether the shutdown event is
  set when the iteration starts, and what the network answers to the attempts of its
  request.
\<close>

record page_env =
  shutdown_set :: "int \<Rightarrow> bool"
  http :: "int \<Rightarrow> nat \<Rightarrow> http_result"

text \<open>
  \<^verbatim>\<open>for entry in data: rid = entry.get("paperId"); if rid: rows.append((pid, rid))\<close>
\<close>

fun collect_rows :: "string \<Rightarrow> json list \<Rightarrow> (string \<times> json) list \<Rightarrow> exn + (string \<times> json) list" where
  "collect_rows pid [] rows = Inr rows"
| "collect_rows pid (entry # es) rows =
     (case dict_get entry ''paperId'' JNull of
        Inl x \<Rightarrow> Inl x
      | Inr rid \<Rightarrow> collect_rows pid es (if truthy rid then rows @ [(pid, rid)] else rows))"

text \<open>
  The \<^verbatim>\<open>while\<close> loop of \<^verbatim>\<open>fetch_pages\<close>, with the current \<open>offset\<close> and \<open>rows\<close>. The
  lines that only print are left out.
\<close>

function fetch_pages_loop ::
  "page_env \<Rightarrow> string \<Rightarrow> int \<Rightarrow> int \<Rightarrow> (string \<times> json) list
     \<Rightarrow> event list \<times> (exn + string \<times> (string \<times> json) list)" where
  "fetch_pages_loop env pid total_refs offset rows =
     (if offset < total_refs \<and> offset \<le> MAX_OFFSET then
        if shutdown_set env offset then ([], Inr (pid, rows))
        else
          (case send_request (http env offset) (references_request pid offset) of
             (evs, Inl x) \<Rightarrow>
               if is_request_exception x then (evs, Inr (pid, rows)) else (evs, Inl x)
           | (evs, Inr resp) \<Rightarrow>
               (case body resp of
                  None \<Rightarrow> (evs, Inl JSONDecodeError)
                | Some j \<Rightarrow>
                    (case dict_get j ''data'' (JArr []) of
                       Inl x \<Rightarrow> (evs, Inl x)
                     | Inr data \<Rightarrow>
                         if \<not> truthy data then (evs, Inr (pid, rows))
                         else
                           (case py_iter data of
                              Inl x \<Rightarrow> (evs, Inl x)
                            | Inr entries \<Rightarrow>
                                (case collect_rows pid entries rows of
                                   Inl x \<Rightarrow> (evs, Inl x)
                                 | Inr rows' \<Rightarrow>
                                     (case dict_get j ''next'' JNull of
                                        Inl x \<Rightarrow> (evs, Inl x)
                                      | Inr nxt \<Rightarrow>
                                          if \<not> isinstance_int nxt \<or> int_value nxt \<le> offset
                                             \<or> int_value nxt > MAX_OFFSET
                                          then (evs, Inr (pid, rows'))
                                          else
                                            (case fetch_pages_loop env pid total_refs
                                                    (int_value nxt) rows' of
                                               (evs', r) \<Rightarrow> (evs @ evs', r))))))))
      else ([], Inr (pid, rows)))"
  by pat_completeness auto
termination
  by (relation "measure (\<lambda>(env, pid, total_refs, offset, rows). nat (MAX_OFFSET + 1 - offset))")
     (auto simp: MAX_OFFSET_def)

declare fetch_pages_loop.simps [simp del]

definition fetch_pages ::
  "page_env \<Rightarrow> string \<Rightarrow> int \<Rightarrow> int \<Rightarrow> event list \<times> (exn + string \<times> (string \<times> json) list)" where
  "fetch_pages env pid start_offset total_refs = fetch_pages_loop env pid total_refs start_offset []"

subsection \<open>PostgreSQL and Redis as state\<close>

text \<open>
  The two tables hold the committed rows; \<open>tx_citations\<close> and \<open>tx_processed\<close> hold the
  rows that the open transaction has inserted and not yet committed. \<open>blooms\<close> gives for
  each filter the set of items for which it answers "may exist": every item that was added,
  and whatever false positives the filter has. \<open>trace\<close> is the log of effects.
\<close>

record world =
  citations :: "(string \<times> string) set"
  processed_papers :: "string \<rightharpoonup> string list"
  tx_citations :: "(string \<times> string) list"
  tx_processed :: "(string \<times> string list) list"
  paper_queue :: "json list"
  blooms :: "string \<Rightarrow> string set"
  trace :: "event list"

definition log_event :: "event \<Rightarrow> world \<Rightarrow> world" where
  "log_event e w = w\<lparr>trace := trace w @ [e]\<rparr>"

text \<open>
  What the database reports for a statement or a commit: success, a deadlock
  (\<^verbatim>\<open>psycopg2.errors.DeadlockDetected\<close>) or any other error.
\<close>

datatype db_result = DbOk | DbDeadlock | DbFailure

fun db_raise :: "db_result \<Rightarrow> exn + unit" where
  "db_raise DbOk = Inr ()"
| "db_raise DbDeadlock = Inl DeadlockDetected"
| "db_raise DbFailure = Inl DatabaseError"

text \<open>
  \<^verbatim>\<open>INSERT INTO citations (citing_id, cited_id) VALUES %s ON CONFLICT DO NOTHING\<close> and
  \<^verbatim>\<open>INSERT INTO processed_papers (paper_id, fields_of_study) VALUES %s ON CONFLICT DO
  NOTHING\<close>, inside the open transaction. The event stands for the call of
  \<^verbatim>\<open>execute_values\<close> with the rows; for an empty list psycopg2 sends no statement.
\<close>

definition insert_citations :: "(string \<times> string) list \<Rightarrow> world \<Rightarrow> world" where
  "insert_citations rows w =
     log_event (EvInsertCitations rows) (w\<lparr>tx_citations := tx_citations w @ rows\<rparr>)"

definition insert_processed :: "(string \<times> string list) list \<Rightarrow> world \<Rightarrow> world" where
  "insert_processed rows w =
     log_event (EvInsertProcessed rows) (w\<lparr>tx_processed := tx_processed w @ rows\<rparr>)"

text \<open>
  \<^verbatim>\<open>conn.commit()\<close> and \<^verbatim>\<open>conn.rollback()\<close>. On a conflict the row that is already there
  stays.
\<close>

definition commit :: "world \<Rightarrow> world" where
  "commit w =
     log_event EvCommit
       (w\<lparr>citations := citations w \<union> set (tx_citations w),
          processed_papers := map_of (tx_processed w) ++ processed_papers w,
          tx_citations := [], tx_processed := []\<rparr>)"

definition rollback :: "world \<Rightarrow> world" where
  "rollback w = log_event EvRollback (w\<lparr>tx_citations := [], tx_processed := []\<rparr>)"

text \<open>The rows of \<^verbatim>\<open>processed_papers\<close> that a query of the connection sees.\<close>

definition visible_processed :: "world \<Rightarrow> string \<rightharpoonup> string list" where
  "visible_processed w = map_of (tx_processed w) ++ processed_papers w"

text \<open>
  \<^verbatim>\<open>SELECT paper_id FROM processed_papers WHERE paper_id = ANY(%s)\<close> followed by
  \<^verbatim>\<open>{row[0] for row in cur.fetchall()}\<close>: the set of the ids that have a row, as a list
  without duplicates (Python leaves the order of a set open).
\<close>

definition select_processed :: "string list \<Rightarrow> world \<Rightarrow> string list \<times> world" where
  "select_processed ids w =
     (filter (\<lambda>pid. visible_processed w pid \<noteq> None) (remdups ids),
      log_event (EvSelectProcessed ids) w)"

text \<open>
  \<^verbatim>\<open>BF.MEXISTS key item [item ...]\<close> and \<^verbatim>\<open>BF.MADD key item [item ...]\<close>. Redis rejects
  either command when no item is given (wrong number of arguments), which redis-py raises
  as ResponseError. \<^verbatim>\<open>BF.MADD\<close> adds the items one after the other and answers for each
  whether it was new.
\<close>

definition bf_mexists :: "string \<Rightarrow> string list \<Rightarrow> world \<Rightarrow> (exn + bool list) \<times> world" where
  "bf_mexists name items w =
     (if items = [] then (Inl ResponseError, log_event (EvBfMexists name []) w)
      else (Inr (map (\<lambda>x. x \<in> blooms w name) items), log_event (EvBfMexists name items) w))"

fun bf_add_seq :: "string list \<Rightarrow> string set \<Rightarrow> bool list \<times> string set" where
  "bf_add_seq [] s = ([], s)"
| "bf_add_seq (x # xs) s =
     (case bf_add_seq xs (insert x s) of (fs, s') \<Rightarrow> ((x \<notin> s) # fs, s'))"

definition bf_madd :: "string \<Rightarrow> string list \<Rightarrow> world \<Rightarrow> (exn + bool list) \<times> world" where
  "bf_madd name items w =
     (if items = [] then (Inl ResponseError, log_event (EvBfMadd name []) w)
      else (case bf_add_seq items (blooms w name) of
              (fs, s') \<Rightarrow>
                (Inr fs, log_event (EvBfMadd name items) (w\<lparr>blooms := (blooms w)(name := s')\<rparr>))))"

text \<open>
  \<^verbatim>\<open>r.rpush(REDIS_QUEUE, *entries)\<close> and \<^verbatim>\<open>r.llen(REDIS_QUEUE)\<close>. The queue holds the
  text of \<^verbatim>\<open>json.dumps({"id": pid})\<close>; the model keeps the JSON value.
\<close>

definition envelope :: "string \<Rightarrow> json" where
  "envelope pid = JObj [(''id'', JStr pid)]"

definition rpush :: "json list \<Rightarrow> world \<Rightarrow> (exn + nat) \<times> world" where
  "rpush entries w =
     (if entries = [] then (Inl ResponseError, log_event (EvRpush REDIS_QUEUE []) w)
      else (Inr (length (paper_queue w @ entries)),
            log_event (EvRpush REDIS_QUEUE entries) (w\<lparr>paper_queue := paper_queue w @ entries\<rparr>)))"

definition llen :: "world \<Rightarrow> nat \<times> world" where
  "llen w = (length (paper_queue w), log_event (EvLlen REDIS_QUEUE) w)"

subsection \<open>\<^verbatim>\<open>safe_insert_citations\<close> and \<^verbatim>\<open>mark_processed\<close>\<close>

text \<open>
  The \<^verbatim>\<open>try\<close> block of \<^verbatim>\<open>safe_insert_citations\<close>: \<open>r\<close> says what the database reports
  for the insert and for the commit of this attempt.
\<close>

definition insert_citations_try ::
  "db_result \<times> db_result \<Rightarrow> (string \<times> string) list \<Rightarrow> world \<Rightarrow> (exn + unit) \<times> world" where
  "insert_citations_try r rows w =
     (case db_raise (fst r) of
        Inl x \<Rightarrow> (Inl x, w)
      | Inr _ \<Rightarrow>
          (let w1 = insert_citations rows w
           in case db_raise (snd r) of
                Inl x \<Rightarrow> (Inl x, w1)
              | Inr _ \<Rightarrow> (Inr (), commit w1)))"

text \<open>
  \<^verbatim>\<open>for attempt in range(1, MAX_INSERT_RETRIES + 1)\<close>, over the attempts that are left.
\<close>

fun insert_citations_loop ::
  "(nat \<Rightarrow> db_result \<times> db_result) \<Rightarrow> (string \<times> string) list \<Rightarrow> nat list \<Rightarrow> world
     \<Rightarrow> (exn + unit) \<times> world" where
  "insert_citations_loop env rows [] w = (Inr (), w)"
| "insert_citations_loop env rows (attempt # rest) w =
     (case insert_citations_try (env attempt) rows w of
        (Inr _, w1) \<Rightarrow> (Inr (), w1)
      | (Inl x, w1) \<Rightarrow>
          if x = DeadlockDetected then
            (let w2 = rollback w1
             in if attempt = MAX_INSERT_RETRIES then (Inl x, w2)
                else insert_citations_loop env rows rest
                       (log_event (EvSleep (INSERT_BACKOFF * 2 ^ (attempt - 1))) w2))
          else (Inl x, w1))"

definition safe_insert_citations ::
  "(nat \<Rightarrow> db_result \<times> db_result) \<Rightarrow> (string \<times> string) list \<Rightarrow> world \<Rightarrow> (exn + unit) \<times> world" where
  "safe_insert_citations env rows w =
     insert_citations_loop env rows [1 ..< MAX_INSERT_RETRIES + 1] w"

text \<open>
  \<^verbatim>\<open>fos_map\<close> is a dict from paper id to fields of study, kept as the list of its items
  in insertion order. The \<^verbatim>\<open>try\<close> block of \<^verbatim>\<open>mark_processed\<close>:
\<close>

definition mark_processed_try ::
  "db_result \<times> db_result \<Rightarrow> (string \<times> string list) list \<Rightarrow> world \<Rightarrow> (exn + unit) \<times> world" where
  "mark_processed_try r fos_map w =
     (let rows = map (\<lambda>kv. (fst kv, snd kv)) fos_map
      in case db_raise (fst r) of
           Inl x \<Rightarrow> (Inl x, w)
         | Inr _ \<Rightarrow>
             (let w1 = insert_processed rows w
              in case db_raise (snd r) of
                   Inl x \<Rightarrow> (Inl x, w1)
                 | Inr _ \<Rightarrow>
                     (case bf_madd BLOOM_NAME (map fst fos_map) (commit w1) of
                        (Inl x, w2) \<Rightarrow> (Inl x, w2)
                      | (Inr _, w2) \<Rightarrow> (Inr (), w2))))"

fun mark_processed_loop ::
  "(nat \<Rightarrow> db_result \<times> db_result) \<Rightarrow> (string \<times> string list) list \<Rightarrow> nat list \<Rightarrow> world
     \<Rightarrow> (exn + unit) \<times> world" where
  "mark_processed_loop env fos_map [] w = (Inr (), w)"
| "mark_processed_loop env fos_map (attempt # rest) w =
     (case mark_processed_try (env attempt) fos_map w of
        (Inr _, w1) \<Rightarrow> (Inr (), w1)
      | (Inl x, w1) \<Rightarrow>
          if x = DeadlockDetected then
            (let w2 = rollback w1
             in if attempt = MAX_MARK_RETRIES then (Inl x, w2)
                else mark_processed_loop env fos_map rest
                       (log_event (EvSleep (INSERT_BACKOFF * 2 ^ (attempt - 1))) w2))
          else (Inl x, w1))"

definition mark_processed ::
  "(nat \<Rightarrow> db_result \<times> db_result) \<Rightarrow> (string \<times> string list) list \<Rightarrow> world \<Rightarrow> (exn + unit) \<times> world" where
  "mark_processed env fos_map w =
     (if fos_map = [] then (Inr (), w)
      else mark_processed_loop env fos_map [1 ..< MAX_MARK_RETRIES + 1] w)"

subsection \<open>\<^verbatim>\<open>filter_new_ids\<close>\<close>

definition filter_new_ids :: "string list \<Rightarrow> world \<Rightarrow> (exn + string list) \<times> world" where
  "filter_new_ids candidate_ids w =
     (if candidate_ids = [] then (Inr [], w)
      else
        (case bf_mexists BLOOM_NAME candidate_ids w of
           (Inl x, w1) \<Rightarrow> (Inl x, w1)
         | (Inr flags, w1) \<Rightarrow>
             (let maybe_seen = map fst (filter snd (zip candidate_ids flags));
                  new_ids = map fst (filter (\<lambda>pf. \<not> snd pf) (zip candidate_ids flags))
              in if maybe_seen \<noteq> [] then
                   (case select_processed maybe_seen w1 of
                      (seen, w2) \<Rightarrow>
                        (case bf_madd BLOOM_NAME seen w2 of
                           (Inl x, w3) \<Rightarrow> (Inl x, w3)
                         | (Inr _, w3) \<Rightarrow>
                             (Inr (new_ids @ filter (\<lambda>pid. pid \<notin> set seen) maybe_seen), w3)))
                 else (Inr new_ids, w1))))"

subsection \<open>The writes of one batch of the crawl loop\<close>

text \<open>
  \<^verbatim>\<open>safe_insert_citations(cur, conn, ref_rows); mark_processed(cur, conn, fos_map)\<close> in
  \<^verbatim>\<open>main\<close>, for the \<open>ref_rows\<close> and the \<open>fos_map\<close> that the batch has collected; \<open>env1\<close> and
  \<open>env2\<close> say what the database reports to the attempts of the two calls.
\<close>

definition batch_write ::
  "(nat \<Rightarrow> db_result \<times> db_result) \<Rightarrow> (nat \<Rightarrow> db_result \<times> db_result)
     \<Rightarrow> (string \<times> string) list \<Rightarrow> (string \<times> string list) list \<Rightarrow> world
     \<Rightarrow> (exn + unit) \<times> world" where
  "batch_write env1 env2 ref_rows fos_map w =
     (case safe_insert_citations env1 ref_rows w of
        (Inl x, w1) \<Rightarrow> (Inl x, w1)
      | (Inr _, w1) \<Rightarrow> mark_processed env2 fos_map w1)"

text \<open>
  The lines of \<^verbatim>\<open>main\<close> that follow: the cited ids that are new go through
  \<^verbatim>\<open>BF.MADD\<close> on the queue filter, and those it reports as added are pushed.
\<close>

definition batch_enqueue :: "(string \<times> string) list \<Rightarrow> world \<Rightarrow> (exn + unit) \<times> world" where
  "batch_enqueue ref_rows w =
     (let cited_ids = map snd ref_rows
      in case filter_new_ids cited_ids w of
           (Inl x, w1) \<Rightarrow> (Inl x, w1)
         | (Inr new_ids, w1) \<Rightarrow>
             if new_ids \<noteq> [] then
               (case bf_madd QUEUE_BLOOM_NAME new_ids w1 of
                  (Inl x, w2) \<Rightarrow> (Inl x, w2)
                | (Inr flags, w2) \<Rightarrow>
                    (let truly_new = map fst (filter snd (zip new_ids flags))
                     in if truly_new \<noteq> [] then
                          (case rpush (map envelope truly_new) w2 of
                             (Inl x, w3) \<Rightarrow> (Inl x, w3)
                           | (Inr _, w3) \<Rightarrow> (Inr (), w3))
                        else (Inr (), w2)))
             else (Inr (), w1))"

subsection \<open>Start of \<^verbatim>\<open>main\<close> and the exit code of the script\<close>

definition init_db :: "world \<Rightarrow> world" where
  "init_db w = log_event EvInitDb w"

definition reset_bloom_filters :: "world \<Rightarrow> world" where
  "reset_bloom_filters w =
     log_event (EvBfReserve QUEUE_BLOOM_NAME)
       (log_event (EvBfReserve BLOOM_NAME)
          (log_event (EvRedisDelete QUEUE_BLOOM_NAME)
             (log_event (EvRedisDelete BLOOM_NAME)
                (log_event (EvRedisDelete REDIS_QUEUE)
                   (w\<lparr>paper_queue := [],
                      blooms := (blooms w)(BLOOM_NAME := {}, QUEUE_BLOOM_NAME := {})\<rparr>)))))"

text \<open>\<^verbatim>\<open>TRUNCATE processed_papers, citations;\<close>\<close>

definition truncate_tables :: "world \<Rightarrow> world" where
  "truncate_tables w =
     log_event EvTruncate
       (w\<lparr>citations := {}, processed_papers := Map.empty,
          tx_citations := [], tx_processed := []\<rparr>)"

text \<open>
  How the part of \<^verbatim>\<open>main\<close> before the crawl loop ends: with the \<^verbatim>\<open>return\<close> of the
  resume branch, or by going on to the loop.
\<close>

datatype flow = Return | Continue

text \<open>
  \<^verbatim>\<open>if fresh and seeds: r.execute_command("BF.MADD", QUEUE_BLOOM_NAME, *seeds); entries =
  [json.dumps({"id": pid}) for pid in seeds]; r.rpush(REDIS_QUEUE, *entries)\<close>
\<close>

definition seed_frontier :: "string list \<Rightarrow> bool \<Rightarrow> world \<Rightarrow> (exn + flow) \<times> world" where
  "seed_frontier seeds fresh w =
     (if fresh \<and> seeds \<noteq> [] then
        (case bf_madd QUEUE_BLOOM_NAME seeds w of
           (Inl x, w1) \<Rightarrow> (Inl x, w1)
         | (Inr _, w1) \<Rightarrow>
             (case rpush (map envelope seeds) w1 of
                (Inl x, w2) \<Rightarrow> (Inl x, w2)
              | (Inr _, w2) \<Rightarrow> (Inr Continue, w2)))
      else (Inr Continue, w))"

text \<open>
  \<^verbatim>\<open>main\<close> up to the crawl loop. \<open>seeds\<close> is the list of the command line (\<^verbatim>\<open>None\<close> and
  the empty list behave alike).
\<close>

definition main_startup :: "string list \<Rightarrow> bool \<Rightarrow> bool \<Rightarrow> world \<Rightarrow> (exn + flow) \<times> world" where
  "main_startup seeds fresh resume w =
     (let w1 = commit (init_db w)
      in if fresh then
           seed_frontier seeds fresh (commit (truncate_tables (reset_bloom_filters w1)))
         else if resume then
           (case llen w1 of
              (len, w2) \<Rightarrow>
                if len = 0 then (Inr Return, w2)
                else seed_frontier seeds fresh w2)
         else seed_frontier seeds fresh w1)"

text \<open>
  \<^verbatim>\<open>main\<close>, with the crawl loop as the argument \<open>crawl_loop\<close>; \<open>None\<close> is a loop that does
  not end.
\<close>

definition main ::
  "(world \<Rightarrow> ((exn + unit) \<times> world) option) \<Rightarrow> string list \<Rightarrow> bool \<Rightarrow> bool \<Rightarrow> world
     \<Rightarrow> ((exn + unit) \<times> world) option" where
  "main crawl_loop seeds fresh resume w =
     (case main_startup seeds fresh resume w of
        (Inl x, w1) \<Rightarrow> Some (Inl x, w1)
      | (Inr Return, w1) \<Rightarrow> Some (Inr (), w1)
      | (Inr Continue, w1) \<Rightarrow> crawl_loop w1)"

text \<open>
  The script: argparse requires exactly one of \<^verbatim>\<open>--fresh\<close> and \<^verbatim>\<open>--resume\<close> and exits
  with status 2 otherwise. The interpreter exits with status 1 when \<^verbatim>\<open>main\<close> raises and
  with status 0 when it returns; nothing in the module calls \<^verbatim>\<open>sys.exit\<close>.
\<close>

definition crawler_script ::
  "(world \<Rightarrow> ((exn + unit) \<times> world) option) \<Rightarrow> bool \<Rightarrow> bool \<Rightarrow> string list \<Rightarrow> world
     \<Rightarrow> (int \<times> world) option" where
  "crawler_script crawl_loop fresh resume seeds w =
     (if fresh = resume then Some (2, w)
      else (case main crawl_loop seeds fresh resume w of
              None \<Rightarrow> None
            | Some (Inl x, w1) \<Rightarrow> Some (1, w1)
            | Some (Inr _, w1) \<Rightarrow> Some (0, w1)))"

subsection \<open>Reading the event log\<close>

text \<open>The HTTP requests, the sleeps and the pauses between attempts that a log holds, in order.\<close>

definition http_requests :: "event list \<Rightarrow> request list" where
  "http_requests evs = concat (map (\<lambda>e. case e of EvHttp rq \<Rightarrow> [rq] | _ \<Rightarrow> []) evs)"

definition sleeps :: "event list \<Rightarrow> real list" where
  "sleeps evs = concat (map (\<lambda>e. case e of EvSleep d \<Rightarrow> [d] | _ \<Rightarrow> []) evs)"

definition retry_waits :: "event list \<Rightarrow> real list" where
  "retry_waits evs = concat (map (\<lambda>e. case e of EvRetryWait d \<Rightarrow> [d] | _ \<Rightarrow> []) evs)"

definition insert_attempts :: "event list \<Rightarrow> nat" where
  "insert_attempts evs =
     length (filter (\<lambda>e. case e of EvInsertCitations _ \<Rightarrow> True | _ \<Rightarrow> False) evs)"

definition rollbacks :: "event list \<Rightarrow> nat" where
  "rollbacks evs = length (filter (\<lambda>e. e = EvRollback) evs)"

text \<open>An attempt deadlocks when the insert or, after a good insert, the commit reports it.\<close>

definition deadlocks :: "db_result \<times> db_result \<Rightarrow> bool" where
  "deadlocks r = (fst r = DbDeadlock \<or> (fst r = DbOk \<and> snd r = DbDeadlock))"

text \<open>
  Reading the log of \<^verbatim>\<open>fetch_pages\<close>: \<open>page_events env pid offset\<close> are the effects of
  the request of the page at \<open>offset\<close>, with its retries. \<open>page_continues env pid offset
  offset'\<close> says that this request returned a response whose body is JSON, whose
  \<^verbatim>\<open>data\<close> is not empty, and whose \<^verbatim>\<open>next\<close> is an integer equal to \<open>offset'\<close>, greater
  than \<open>offset\<close> and at most \<open>MAX_OFFSET\<close>.
\<close>

definition page_events :: "page_env \<Rightarrow> string \<Rightarrow> int \<Rightarrow> event list" where
  "page_events env pid offset = fst (send_request (http env offset) (references_request pid offset))"

definition page_continues :: "page_env \<Rightarrow> string \<Rightarrow> int \<Rightarrow> int \<Rightarrow> bool" where
  "page_continues env pid offset offset' =
     (case snd (send_request (http env offset) (references_request pid offset)) of
        Inl _ \<Rightarrow> False
      | Inr resp \<Rightarrow>
          (case body resp of
             None \<Rightarrow> False
           | Some j \<Rightarrow>
               (case dict_get j ''data'' (JArr []) of
                  Inl _ \<Rightarrow> False
                | Inr data \<Rightarrow>
                    truthy data \<and>
                    (case dict_get j ''next'' JNull of
                       Inl _ \<Rightarrow> False
                     | Inr nxt \<Rightarrow>
                         isinstance_int nxt \<and> int_value nxt = offset'
                         \<and> offset < offset' \<and> offset' \<le> MAX_OFFSET))))"

text \<open>An attempt fails with an error that the retry decorator retries.\<close>

definition retryable_failure :: "request \<Rightarrow> http_result \<Rightarrow> bool" where
  "retryable_failure rq res =
     (case snd (send_request_once rq res) of Inl x \<Rightarrow> is_request_exception x | Inr _ \<Rightarrow> False)"

subsection \<open>Concrete inputs\<close>

text \<open>A worker that starts with empty tables, an empty frontier and empty filters.\<close>

definition empty_world :: world where
  "empty_world =
     \<lparr>citations = {}, processed_papers = Map.empty, tx_citations = [], tx_processed = [],
      paper_queue = [], blooms = (\<lambda>name. {}), trace = []\<rparr>"

text \<open>A database that reports a deadlock for every insert.\<close>

definition always_deadlock :: "nat \<Rightarrow> db_result \<times> db_result" where
  "always_deadlock = (\<lambda>attempt. (DbDeadlock, DbOk))"

text \<open>A database that reports a deadlock for the first insert only.\<close>

definition deadlock_once :: "nat \<Rightarrow> db_result \<times> db_result" where
  "deadlock_once = (\<lambda>attempt. if attempt = 1 then (DbDeadlock, DbOk) else (DbOk, DbOk))"

text \<open>One citation edge and the fields of study of its citing paper.\<close>

definition sample_rows :: "(string \<times> string) list" where
  "sample_rows = [(''P1'', ''R1'')]"

definition sample_fos_map :: "(string \<times> string list) list" where
  "sample_fos_map = [(''P1'', [''Computer Science''])]"

text \<open>
  Empty tables, and a processed filter that answers "may exist" for \<open>P1\<close>: a false
  positive.
\<close>

definition false_positive_world :: world where
  "false_positive_world = empty_world\<lparr>blooms := (\<lambda>name. {''P1''})\<rparr>"

text \<open>A crawl loop that never ends.\<close>

definition idle_loop :: "world \<Rightarrow> ((exn + unit) \<times> world) option" where
  "idle_loop = (\<lambda>w. None)"

text \<open>
  The first page request of a paper, a network that is down, and a server that answers
  every attempt alike: 404, or 429 with \<^verbatim>\<open>Retry-After: 2\<close>. The host has been up for
  1000 seconds.
\<close>

definition sample_request :: request where
  "sample_request = references_request ''P1'' 99"

definition network_down :: "nat \<Rightarrow> http_result" where
  "network_down = (\<lambda>attempt. NetworkFailure)"

definition not_found :: response where
  "not_found = \<lparr>status_code = 404, retry_after = None, body = None, clock_monotonic = 1000\<rparr>"

definition always_not_found :: "nat \<Rightarrow> http_result" where
  "always_not_found = (\<lambda>attempt. Response not_found)"

definition throttled :: "string \<Rightarrow> response" where
  "throttled ra =
     \<lparr>status_code = 429, retry_after = Some ra, body = None, clock_monotonic = 1000\<rparr>"

definition always_throttled :: "nat \<Rightarrow> http_result" where
  "always_throttled = (\<lambda>attempt. Response (throttled ''2''))"

text \<open>A server that gives the same response to every attempt.\<close>

definition always_answering :: "response \<Rightarrow> nat \<Rightarrow> http_result" where
  "always_answering resp = (\<lambda>attempt. Response resp)"

text \<open>
  A paper whose references endpoint has two pages: the page at offset 99 carries
  \<^verbatim>\<open>next\<close> = 198, the page at offset 198 carries \<^verbatim>\<open>next\<close> = null.
\<close>

definition reference_page :: "string \<Rightarrow> json \<Rightarrow> response" where
  "reference_page rid nxt =
     \<lparr>status_code = 200, retry_after = None,
      body = Some (JObj [(''data'', JArr [JObj [(''paperId'', JStr rid)]]), (''next'', nxt)]),
      clock_monotonic = 1000\<rparr>"

definition two_pages :: page_env where
  "two_pages =
     \<lparr>shutdown_set = (\<lambda>offset. False),
      http = (\<lambda>offset attempt.
                if offset = 99 then Response (reference_page ''R100'' (JInt 198))
                else Response (reference_page ''R199'' JNull))\<rparr>"

section \<open>Properties\<close>

subsection \<open>The rate limiter\<close>







subsection \<open>Deadlock retry of the batch writer\<close>

lemma insert_attempt_numbers: "[1 ..< MAX_INSERT_RETRIES + 1] = [1, 2, 3]"
  by (simp add: MAX_INSERT_RETRIES_def upt_rec)

lemma mark_attempt_numbers: "[1 ..< MAX_MARK_RETRIES + 1] = [1, 2, 3]"
  by (simp add: MAX_MARK_RETRIES_def upt_rec)

lemmas world_ops = log_event_def insert_citations_def insert_processed_def commit_def rollback_def

lemma insert_citations_try_cases:
  "insert_citations_try (a, b) rows w =
     (case a of
        DbOk \<Rightarrow>
          (case b of
             DbOk \<Rightarrow> (Inr (), commit (insert_citations rows w))
           | DbDeadlock \<Rightarrow> (Inl DeadlockDetected, insert_citations rows w)
           | DbFailure \<Rightarrow> (Inl DatabaseError, insert_citations rows w))
      | DbDeadlock \<Rightarrow> (Inl DeadlockDetected, w)
      | DbFailure \<Rightarrow> (Inl DatabaseError, w))"
  by (cases a; cases b) (simp_all add: insert_citations_try_def Let_def)

text \<open>
  Claim C9, as amended. For a list of rows that is not empty, whatever the database
  reports, \<^verbatim>\<open>safe_insert_citations\<close> runs at most three attempts (insert with
  \<^verbatim>\<open>ON CONFLICT DO NOTHING\<close>, then commit): at most three inserts go through and at most
  three attempts are rolled back. Every deadlock is rolled back; after the first deadlock
  it sleeps 1 s, after the second 2 s, and the third deadlock is raised to the caller with
  no further sleep: there is no third retry and no sleep of 4 s. When it returns, the
  rows are in the table, which has kept what it had, and the last two effects are the
  insert of the rows and its commit.
\<close>

theorem safe_insert_citations_retry:
  assumes "safe_insert_citations env rows w = (res, w')" "rows \<noteq> []"
  shows "\<exists>evs. trace w' = trace w @ evs
     \<and> insert_attempts evs \<le> 3 \<and> rollbacks evs \<le> 3
     \<and> (sleeps evs = [] \<or> sleeps evs = [1] \<or> sleeps evs = [1, 2])
     \<and> (res = Inr () \<longrightarrow> citations w \<union> set rows \<subseteq> citations w'
           \<and> citations w' \<subseteq>  citations w \<union> set (tx_citations w) \<union> set rows
           \<and> (\<exists>pre. evs = pre @ [EvInsertCitations rows, EvCommit]))
     \<and> (env 1 = (DbOk, DbOk) \<longrightarrow> res = Inr () \<and> sleeps evs = [] \<and> rollbacks evs = 0)
     \<and> (deadlocks (env 1) \<and> env 2 = (DbOk, DbOk)
           \<longrightarrow> res = Inr () \<and> sleeps evs = [1] \<and> rollbacks evs = 1)
     \<and> (deadlocks (env 1) \<and> deadlocks (env 2) \<and> env 3 = (DbOk, DbOk)
           \<longrightarrow> res = Inr () \<and> sleeps evs = [1, 2] \<and> rollbacks evs = 2)
     \<and> (deadlocks (env 1) \<and> deadlocks (env 2) \<and> deadlocks (env 3)
           \<longrightarrow> res = Inl DeadlockDetected \<and> sleeps evs = [1, 2] \<and> rollbacks evs = 3
               \<and> citations w' = citations w)"
  using assms
  unfolding safe_insert_citations_def insert_attempt_numbers
  apply (cases "env 1"; cases "env 2"; cases "env 3")
  apply (auto simp: insert_citations_try_cases Let_def MAX_INSERT_RETRIES_def INSERT_BACKOFF_def
      deadlocks_def world_ops sleeps_def insert_attempts_def rollbacks_def
      split: if_splits db_result.splits)
  done

text \<open>One deadlock, then success: one sleep of 1 s, and the row is in the table.\<close>

theorem safe_insert_citations_retry_witness:
  "fst (safe_insert_citations deadlock_once [(''P1'', ''R1'')] empty_world) = Inr ()
   \<and> sleeps (trace (snd (safe_insert_citations deadlock_once [(''P1'', ''R1'')] empty_world))) = [1]
   \<and> citations (snd (safe_insert_citations deadlock_once [(''P1'', ''R1'')] empty_world))
       = {(''P1'', ''R1'')}"
  using safe_insert_citations_retry [of deadlock_once "[(''P1'', ''R1'')]" empty_world
      "fst (safe_insert_citations deadlock_once [(''P1'', ''R1'')] empty_world)"
      "snd (safe_insert_citations deadlock_once [(''P1'', ''R1'')] empty_world)"]
  by (auto simp: deadlock_once_def empty_world_def deadlocks_def)

text \<open>
  Claim C9 as stated fails, for a list of one row: when every attempt deadlocks there are
  three attempts, two sleeps (1 s and 2 s), and the third deadlock surfaces.
\<close>

theorem safe_insert_citations_backoff_counterexample:
  "fst (safe_insert_citations always_deadlock [(''P1'', ''R1'')] empty_world) = Inl DeadlockDetected
   \<and> trace (snd (safe_insert_citations always_deadlock [(''P1'', ''R1'')] empty_world))
       = [EvRollback, EvSleep 1, EvRollback, EvSleep 2, EvRollback]
   \<and> sleeps (trace (snd (safe_insert_citations always_deadlock [(''P1'', ''R1'')] empty_world)))
       \<noteq> [1, 2, 4]"
  unfolding safe_insert_citations_def insert_attempt_numbers
  by (simp add: insert_citations_try_cases
      always_deadlock_def empty_world_def Let_def MAX_INSERT_RETRIES_def INSERT_BACKOFF_def
      world_ops sleeps_def)

subsection \<open>Write order within a batch\<close>

lemma mark_processed_try_cases:
  "mark_processed_try (a, b) fos w =
     (case a of
        DbOk \<Rightarrow>
          (case b of
             DbOk \<Rightarrow>
               (case bf_madd BLOOM_NAME (map fst fos) (commit (insert_processed fos w)) of
                  (Inl x, w2) \<Rightarrow> (Inl x, w2)
                | (Inr _, w2) \<Rightarrow> (Inr (), w2))
           | DbDeadlock \<Rightarrow> (Inl DeadlockDetected, insert_processed fos w)
           | DbFailure \<Rightarrow> (Inl DatabaseError, insert_processed fos w))
      | DbDeadlock \<Rightarrow> (Inl DeadlockDetected, w)
      | DbFailure \<Rightarrow> (Inl DatabaseError, w))"
  by (cases a; cases b) (simp_all add: mark_processed_try_def Let_def)

lemma trace_bf_madd:
  "bf_madd name items w = (r, w') \<Longrightarrow> trace w' = trace w @ [EvBfMadd name items]"
  by (auto simp: bf_madd_def log_event_def split: if_splits prod.splits)

lemma bf_madd_nonempty: "items \<noteq> [] \<Longrightarrow> \<exists>fs. fst (bf_madd name items w) = Inr fs"
  by (auto simp: bf_madd_def split: prod.splits)

text \<open>The shape of the log of one try block of mark_processed.\<close>

lemma mark_processed_try_trace:
  assumes "mark_processed_try r fos w = (res, w')" "fos \<noteq> []"
  shows "(res = Inr () \<and> trace w' = trace w @ [EvInsertProcessed fos, EvCommit,
                                             EvBfMadd BLOOM_NAME (map fst fos)])
       \<or> (res \<noteq> Inr () \<and> (trace w' = trace w \<or> trace w' = trace w @ [EvInsertProcessed fos]))"
proof -
  obtain a b where r: "r = (a, b)" by (cases r)
  obtain q w2 where m: "bf_madd BLOOM_NAME (map fst fos) (commit (insert_processed fos w)) = (q, w2)"
    by (cases "bf_madd BLOOM_NAME (map fst fos) (commit (insert_processed fos w))")
  from bf_madd_nonempty [of "map fst fos" BLOOM_NAME "commit (insert_processed fos w)"] assms(2) m
  obtain fs where q: "q = Inr fs" by auto
  from trace_bf_madd [OF m]
  have t: "trace w2 = trace w @ [EvInsertProcessed fos, EvCommit, EvBfMadd BLOOM_NAME (map fst fos)]"
    by (simp add: commit_def insert_processed_def log_event_def)
  show ?thesis
    using assms(1) m q t unfolding r mark_processed_try_cases
    by (cases a; cases b) (auto simp: insert_processed_def log_event_def)
qed

lemma mark_processed_loop_trace:
  assumes "mark_processed_loop env fos atts w = (res, w')" "fos \<noteq> []"
  shows "\<exists>pre. (\<forall>n ks. EvBfMadd n ks \<notin> set pre)
        \<and> (trace w' = trace w @ pre
           \<or> trace w' = trace w @ pre @ [EvInsertProcessed fos, EvCommit,
                                          EvBfMadd BLOOM_NAME (map fst fos)])"
  using assms
proof (induction atts arbitrary: w)
  case Nil
  then have "trace w' = trace w @ []" by simp
  then show ?case by (intro exI [of _ "[]"]) simp
next
  case (Cons attempt rest)
  obtain r1 w1 where t: "mark_processed_try (env attempt) fos w = (r1, w1)"
    by (cases "mark_processed_try (env attempt) fos w")
  from mark_processed_try_trace [OF t Cons.prems(2)]
  consider (ok) "r1 = Inr ()" "trace w1 = trace w @ [EvInsertProcessed fos, EvCommit,
                                             EvBfMadd BLOOM_NAME (map fst fos)]"
    | (bad) "r1 \<noteq> Inr ()" "trace w1 = trace w @ [] \<or> trace w1 = trace w @ [EvInsertProcessed fos]"
    by auto
  then show ?case
  proof cases
    case ok
    with Cons.prems(1) t have "w' = w1" by simp
    with ok show ?thesis by (intro exI [of _ "[]"]) simp
  next
    case bad
    then obtain x where x: "r1 = Inl x" by (cases r1) auto
    from bad(2) obtain p1 where p1: "trace w1 = trace w @ p1" "\<forall>n ks. EvBfMadd n ks \<notin> set p1"
      by auto
    show ?thesis
    proof (cases "x = DeadlockDetected \<and> attempt \<noteq> MAX_MARK_RETRIES")
      case True
      let ?w3 = "log_event (EvSleep (INSERT_BACKOFF * 2 ^ (attempt - 1))) (rollback w1)"
      from Cons.prems(1) t x True
      have "mark_processed_loop env fos rest ?w3 = (res, w')" by (simp add: Let_def)
      from Cons.IH [OF this Cons.prems(2)]
      obtain pre where pre: "\<forall>n ks. EvBfMadd n ks \<notin> set pre"
        "trace w' = trace ?w3 @ pre
           \<or> trace w' = trace ?w3 @ pre @ [EvInsertProcessed fos, EvCommit,
                                          EvBfMadd BLOOM_NAME (map fst fos)]"
        by blast
      have w3: "trace ?w3 = trace w @ p1 @ [EvRollback, EvSleep (INSERT_BACKOFF * 2 ^ (attempt - 1))]"
        using p1 by (simp add: log_event_def rollback_def)
      show ?thesis
        using pre p1(2) unfolding w3
        by (intro exI [of _ "p1 @ [EvRollback, EvSleep (INSERT_BACKOFF * 2 ^ (attempt - 1))] @ pre"])
           auto
    next
      case False
      with Cons.prems(1) t x
      have "trace w' = trace w1 \<or> trace w' = trace w1 @ [EvRollback]"
        by (auto simp: Let_def rollback_def log_event_def split: if_splits)
      then show ?thesis
        using p1
        by (elim disjE; intro exI [of _ "p1"] exI [of _ "p1 @ [EvRollback]"]) auto
    qed
  qed
qed


lemma safe_insert_citations_trace:
  assumes "safe_insert_citations env rows w = (res, w')"
  shows "\<exists>evs. trace w' = trace w @ evs
     \<and> (\<forall>e \<in> set evs. e = EvInsertCitations rows \<or> e = EvCommit \<or> e = EvRollback
            \<or> e = EvSleep 1 \<or> e = EvSleep 2)
     \<and> (res = Inr () \<longrightarrow> (\<exists>pre. evs = pre @ [EvInsertCitations rows, EvCommit]))"
  using assms
  unfolding safe_insert_citations_def insert_attempt_numbers
  apply (cases "env 1"; cases "env 2"; cases "env 3")
  apply (auto simp: insert_citations_try_cases Let_def MAX_INSERT_RETRIES_def INSERT_BACKOFF_def
      world_ops split: if_splits db_result.splits)
  done

lemma mark_processed_trace:
  assumes "mark_processed env fos w = (res, w')"
  shows "\<exists>pre. (\<forall>n ks. EvBfMadd n ks \<notin> set pre)
        \<and> (trace w' = trace w @ pre
           \<or> trace w' = trace w @ pre @ [EvInsertProcessed fos, EvCommit,
                                          EvBfMadd BLOOM_NAME (map fst fos)])"
proof (cases "fos = []")
  case True
  with assms have "trace w' = trace w @ []" by (simp add: mark_processed_def)
  then show ?thesis by (intro exI [of _ "[]"]) simp
next
  case False
  with assms show ?thesis
    by (simp add: mark_processed_def mark_processed_loop_trace)
qed

lemma split_after_prefix:
  assumes "xs @ a # ys = p @ q" "a \<notin> set p"
  shows "\<exists>t. xs = p @ t \<and> q = t @ a # ys"
  using assms by (auto simp: append_eq_append_conv2 Cons_eq_append_conv)

lemma split_at_last:
  assumes "xs @ a # ys = p @ [b, c, d]" "a \<notin> set p" "a \<noteq> b" "a \<noteq> c"
  shows "xs = p @ [b, c] \<and> a = d \<and> ys = []"
proof -
  from split_after_prefix [OF assms(1,2)]
  obtain t where t: "xs = p @ t" "[b, c, d] = t @ a # ys" by blast
  from t(2) assms(3,4) have "t = [b, c] \<and> a = d \<and> ys = []"
    by (auto simp: Cons_eq_append_conv)
  with t(1) show ?thesis by simp
qed

lemma batch_write_trace:
  assumes "batch_write env1 env2 ref_rows fos_map w = (res, w')"
  shows "\<exists>evs. trace w' = trace w @ evs
     \<and> (\<forall>xs rows ys. evs = xs @ EvInsertProcessed rows # ys
           \<longrightarrow> (\<exists>us vs. xs = us @ EvInsertCitations ref_rows # EvCommit # vs))
     \<and> (\<forall>xs name ks ys. evs = xs @ EvBfMadd name ks # ys
           \<longrightarrow> name = BLOOM_NAME \<and> ks = map fst fos_map \<and> ys = []
               \<and> (\<exists>us. xs = us @ [EvInsertProcessed fos_map, EvCommit]))"
proof -
  obtain r1 w1 where c: "safe_insert_citations env1 ref_rows w = (r1, w1)"
    by (cases "safe_insert_citations env1 ref_rows w")
  from safe_insert_citations_trace [OF c]
  obtain ea where ea: "trace w1 = trace w @ ea"
    "\<forall>e \<in> set ea. e = EvInsertCitations ref_rows \<or> e = EvCommit \<or> e = EvRollback
            \<or> e = EvSleep 1 \<or> e = EvSleep 2"
    "r1 = Inr () \<longrightarrow> (\<exists>pre. ea = pre @ [EvInsertCitations ref_rows, EvCommit])"
    by blast
  have no_ip: "\<And>rows. EvInsertProcessed rows \<notin> set ea" using ea(2) by auto
  have no_madd: "\<And>n ks. EvBfMadd n ks \<notin> set ea" using ea(2) by auto
  show ?thesis
  proof (cases r1)
    case (Inl x)
    with assms c have "w' = w1" by (simp add: batch_write_def)
    with ea(1) no_ip no_madd show ?thesis
      by (intro exI [of _ ea]) (metis in_set_conv_decomp)
  next
    case (Inr u)
    with assms c have m: "mark_processed env2 fos_map w1 = (res, w')"
      by (simp add: batch_write_def)
    from ea(3) Inr obtain pa where pa: "ea = pa @ [EvInsertCitations ref_rows, EvCommit]"
      by auto
    from mark_processed_trace [OF m]
    obtain pre where pre: "\<forall>n ks. EvBfMadd n ks \<notin> set pre"
      "trace w' = trace w1 @ pre
         \<or> trace w' = trace w1 @ pre @ [EvInsertProcessed fos_map, EvCommit,
                                         EvBfMadd BLOOM_NAME (map fst fos_map)]"
      by blast
    define eb where "eb = drop (length (trace w1)) (trace w')"
    have eb: "trace w' = trace w1 @ eb"
      "eb = pre \<or> eb = pre @ [EvInsertProcessed fos_map, EvCommit,
                               EvBfMadd BLOOM_NAME (map fst fos_map)]"
      using pre(2) by (auto simp: eb_def)
    have tr: "trace w' = trace w @ (ea @ eb)" using ea(1) eb(1) by simp
    have p1: "\<exists>us vs. xs = us @ EvInsertCitations ref_rows # EvCommit # vs"
      if "ea @ eb = xs @ EvInsertProcessed rows # ys" for xs rows ys
    proof -
      from split_after_prefix [OF that [symmetric] no_ip]
      obtain t where "xs = ea @ t" by blast
      then have "xs = pa @ EvInsertCitations ref_rows # EvCommit # t" using pa by simp
      then show ?thesis by blast
    qed
    have p2: "name = BLOOM_NAME \<and> ks = map fst fos_map \<and> ys = []
               \<and> (\<exists>us. xs = us @ [EvInsertProcessed fos_map, EvCommit])"
      if h: "ea @ eb = xs @ EvBfMadd name ks # ys" for xs name ks ys
    proof -
      have nm: "EvBfMadd name ks \<notin> set (ea @ pre)" using no_madd pre(1) by simp
      from eb(2) show ?thesis
      proof
        assume "eb = pre"
        with h nm show ?thesis by (metis in_set_conv_decomp)
      next
        assume "eb = pre @ [EvInsertProcessed fos_map, EvCommit,
                            EvBfMadd BLOOM_NAME (map fst fos_map)]"
        with h have "xs @ EvBfMadd name ks # ys
            = (ea @ pre) @ [EvInsertProcessed fos_map, EvCommit,
                            EvBfMadd BLOOM_NAME (map fst fos_map)]"
          by simp
        from split_at_last [OF this nm] show ?thesis by auto
      qed
    qed
    show ?thesis
      using tr p1 p2 by (intro exI [of _ "ea @ eb"]) blast
  qed
qed

lemma bf_add_seq_set: "snd (bf_add_seq items s) = s \<union> set items"
  by (induction items arbitrary: s) (simp_all add: case_prod_beta)

lemma mark_processed_try_state:
  assumes "mark_processed_try r fos w = (res, w')" "fos \<noteq> []"
  shows "(res = Inr () \<and> blooms w' BLOOM_NAME = blooms w BLOOM_NAME \<union> fst ` set fos
            \<and> fst ` set fos \<subseteq> dom (processed_papers w')
            \<and> dom (processed_papers w) \<subseteq> dom (processed_papers w')
            \<and> citations w \<subseteq> citations w')
       \<or> (res \<noteq> Inr () \<and> blooms w' = blooms w \<and> processed_papers w' = processed_papers w
            \<and> citations w' = citations w)"
proof -
  obtain a b where r: "r = (a, b)" by (cases r)
  show ?thesis
  proof (cases "a = DbOk \<and> b = DbOk")
    case True
    define w2 where "w2 = commit (insert_processed fos w)"
    have w2: "blooms w2 = blooms w"
      "processed_papers w2 = map_of (tx_processed w @ fos) ++ processed_papers w"
      "citations w2 = citations w \<union> set (tx_citations w)"
      by (simp_all add: w2_def world_ops)
    have m: "bf_madd BLOOM_NAME (map fst fos) w2
        = (Inr (fst (bf_add_seq (map fst fos) (blooms w2 BLOOM_NAME))),
           log_event (EvBfMadd BLOOM_NAME (map fst fos))
             (w2\<lparr>blooms := (blooms w2)
                 (BLOOM_NAME := snd (bf_add_seq (map fst fos) (blooms w2 BLOOM_NAME)))\<rparr>))"
      using assms(2) by (simp add: bf_madd_def case_prod_beta)
    from assms(1) True have rw: "res = Inr ()"
      "w' = log_event (EvBfMadd BLOOM_NAME (map fst fos))
             (w2\<lparr>blooms := (blooms w2)
                 (BLOOM_NAME := snd (bf_add_seq (map fst fos) (blooms w2 BLOOM_NAME)))\<rparr>)"
      unfolding r mark_processed_try_cases w2_def [symmetric] m by simp_all
    have b: "blooms w' BLOOM_NAME = blooms w BLOOM_NAME \<union> fst ` set fos"
      unfolding rw(2) by (simp add: log_event_def w2(1) bf_add_seq_set)
    have p: "processed_papers w' = map_of (tx_processed w @ fos) ++ processed_papers w"
      unfolding rw(2) by (simp add: log_event_def w2(2))
    have c: "citations w' = citations w \<union> set (tx_citations w)"
      unfolding rw(2) by (simp add: log_event_def w2(3))
    have "fst ` set fos \<subseteq> dom (processed_papers w')"
      unfolding p by (auto simp: dom_map_of_conv_image_fst)
    moreover have "dom (processed_papers w) \<subseteq> dom (processed_papers w')"
      unfolding p by auto
    ultimately show ?thesis using rw(1) b c by auto
  next
    case False
    with assms(1) have "res \<noteq> Inr () \<and> (w' = w \<or> w' = insert_processed fos w)"
      unfolding r mark_processed_try_cases
      by (cases a; cases b) auto
    then show ?thesis by (auto simp: insert_processed_def log_event_def)
  qed
qed

lemma mark_processed_loop_state:
  assumes "mark_processed_loop env fos atts w = (res, w')" "fos \<noteq> []"
  shows "blooms w' BLOOM_NAME \<subseteq> blooms w BLOOM_NAME \<union> dom (processed_papers w')
     \<and> dom (processed_papers w) \<subseteq> dom (processed_papers w')
     \<and> citations w \<subseteq> citations w'
     \<and> (res = Inr () \<and> atts \<noteq> [] \<and> last atts = MAX_MARK_RETRIES
          \<longrightarrow> fst ` set fos \<subseteq> dom (processed_papers w')
              \<and> fst ` set fos \<subseteq> blooms w' BLOOM_NAME)"
  using assms
proof (induction atts arbitrary: w)
  case Nil
  then show ?case by auto
next
  case (Cons attempt rest)
  obtain r1 w1 where t: "mark_processed_try (env attempt) fos w = (r1, w1)"
    by (cases "mark_processed_try (env attempt) fos w")
  from mark_processed_try_state [OF t Cons.prems(2)]
  consider (ok) "r1 = Inr ()" "blooms w1 BLOOM_NAME = blooms w BLOOM_NAME \<union> fst ` set fos"
      "fst ` set fos \<subseteq> dom (processed_papers w1)"
      "dom (processed_papers w) \<subseteq> dom (processed_papers w1)" "citations w \<subseteq> citations w1"
    | (bad) "r1 \<noteq> Inr ()" "blooms w1 = blooms w" "processed_papers w1 = processed_papers w"
      "citations w1 = citations w"
    by blast
  then show ?case
  proof cases
    case ok
    with Cons.prems(1) t have "w' = w1" "res = Inr ()" by simp_all
    with ok show ?thesis by auto
  next
    case bad
    then obtain x where x: "r1 = Inl x" by (cases r1) auto
    show ?thesis
    proof (cases "x = DeadlockDetected \<and> attempt \<noteq> MAX_MARK_RETRIES")
      case True
      let ?w3 = "log_event (EvSleep (INSERT_BACKOFF * 2 ^ (attempt - 1))) (rollback w1)"
      from Cons.prems(1) t x True
      have l: "mark_processed_loop env fos rest ?w3 = (res, w')" by (simp add: Let_def)
      have w3: "blooms ?w3 = blooms w" "processed_papers ?w3 = processed_papers w"
        "citations ?w3 = citations w"
        using bad by (simp_all add: log_event_def rollback_def)
      from Cons.IH [OF l Cons.prems(2)]
      have "blooms w' BLOOM_NAME \<subseteq> blooms w BLOOM_NAME \<union> dom (processed_papers w')
         \<and> dom (processed_papers w) \<subseteq> dom (processed_papers w')
         \<and> citations w \<subseteq> citations w'
         \<and> (res = Inr () \<and> rest \<noteq> [] \<and> last rest = MAX_MARK_RETRIES
              \<longrightarrow> fst ` set fos \<subseteq> dom (processed_papers w')
                  \<and> fst ` set fos \<subseteq> blooms w' BLOOM_NAME)"
        unfolding w3 .
      then show ?thesis using True by (cases rest) auto
    next
      case False
      with Cons.prems(1) t x
      have "res = Inl x" "w' = w1 \<or> w' = rollback w1"
        by (auto simp: Let_def split: if_splits)
      then show ?thesis using bad by (auto simp: rollback_def log_event_def)
    qed
  qed
qed

lemma safe_insert_citations_state:
  assumes "safe_insert_citations env rows w = (res, w')"
  shows "blooms w' = blooms w \<and> dom (processed_papers w) \<subseteq> dom (processed_papers w')
     \<and> (res = Inr () \<longrightarrow> set rows \<subseteq> citations w')"
  using assms
  unfolding safe_insert_citations_def insert_attempt_numbers
  apply (cases "env 1"; cases "env 2"; cases "env 3")
  apply (auto simp: insert_citations_try_cases Let_def MAX_INSERT_RETRIES_def INSERT_BACKOFF_def
      world_ops split: if_splits db_result.splits)
  done

lemma batch_write_state:
  assumes "batch_write env1 env2 ref_rows fos_map w = (res, w')"
  shows "blooms w' BLOOM_NAME \<subseteq> blooms w BLOOM_NAME \<union> dom (processed_papers w')
     \<and> (res = Inr () \<longrightarrow> set ref_rows \<subseteq> citations w'
           \<and> fst ` set fos_map \<subseteq> dom (processed_papers w')
           \<and> fst ` set fos_map \<subseteq> blooms w' BLOOM_NAME)"
proof -
  obtain r1 w1 where c: "safe_insert_citations env1 ref_rows w = (r1, w1)"
    by (cases "safe_insert_citations env1 ref_rows w")
  note s1 = safe_insert_citations_state [OF c]
  show ?thesis
  proof (cases r1)
    case (Inl x)
    with assms c have "w' = w1" "res = Inl x" by (simp_all add: batch_write_def)
    with s1 show ?thesis by auto
  next
    case (Inr u)
    with assms c have m: "mark_processed env2 fos_map w1 = (res, w')"
      by (simp add: batch_write_def)
    show ?thesis
    proof (cases "fos_map = []")
      case True
      with m have "w' = w1" "res = Inr ()" by (simp_all add: mark_processed_def)
      with s1 Inr True show ?thesis by auto
    next
      case False
      with m have "mark_processed_loop env2 fos_map [1, 2, 3] w1 = (res, w')"
        unfolding mark_processed_def mark_attempt_numbers by simp
      from mark_processed_loop_state [OF this False] s1 Inr show ?thesis
        by (auto simp: MAX_MARK_RETRIES_def)
    qed
  qed
qed

text \<open>
  Claim C1. In the log of the writes of a batch, whatever the database reports: an insert
  into \<^verbatim>\<open>processed_papers\<close> happens only after the insert of all the citation rows of
  the batch and the commit that follows it; and a \<^verbatim>\<open>BF.MADD\<close> happens only as the last
  effect, on the processed filter, with the paper ids of the batch, directly after the
  insert of the processed rows and its commit. In terms of the state: every id that the
  writes add to the processed filter has a committed row in \<^verbatim>\<open>processed_papers\<close>, and
  when the writes return, the citation rows and the processed rows of the batch are
  committed and the paper ids are in the filter.
\<close>

theorem batch_write_order:
  assumes "batch_write env1 env2 ref_rows fos_map w = (res, w')"
  shows "(\<exists>evs. trace w' = trace w @ evs
     \<and> (\<forall>xs rows ys. evs = xs @ EvInsertProcessed rows # ys
           \<longrightarrow> (\<exists>us vs. xs = us @ EvInsertCitations ref_rows # EvCommit # vs))
     \<and> (\<forall>xs name ks ys. evs = xs @ EvBfMadd name ks # ys
           \<longrightarrow> name = BLOOM_NAME \<and> ks = map fst fos_map \<and> ys = []
               \<and> (\<exists>us. xs = us @ [EvInsertProcessed fos_map, EvCommit])))
   \<and> blooms w' BLOOM_NAME \<subseteq> blooms w BLOOM_NAME \<union> dom (processed_papers w')
   \<and> (res = Inr () \<longrightarrow> set ref_rows \<subseteq> citations w'
         \<and> fst ` set fos_map \<subseteq> dom (processed_papers w')
         \<and> fst ` set fos_map \<subseteq> blooms w' BLOOM_NAME)"
  using batch_write_trace [OF assms] batch_write_state [OF assms] by blast

text \<open>
  With one deadlock in each of the two calls the log is as follows, and the filter is
  written last.
\<close>

theorem batch_write_order_witness:
  "trace (snd (batch_write deadlock_once deadlock_once sample_rows sample_fos_map empty_world))
     = [EvRollback, EvSleep 1, EvInsertCitations sample_rows, EvCommit,
        EvRollback, EvSleep 1, EvInsertProcessed sample_fos_map, EvCommit,
        EvBfMadd BLOOM_NAME [''P1'']]
   \<and> fst (batch_write deadlock_once deadlock_once sample_rows sample_fos_map empty_world) = Inr ()
   \<and> (\<exists>evs. trace (snd (batch_write deadlock_once deadlock_once sample_rows sample_fos_map empty_world)) = trace empty_world @ evs
     \<and> (\<forall>xs rows ys. evs = xs @ EvInsertProcessed rows # ys
           \<longrightarrow> (\<exists>us vs. xs = us @ EvInsertCitations sample_rows # EvCommit # vs))
     \<and> (\<forall>xs name ks ys. evs = xs @ EvBfMadd name ks # ys
           \<longrightarrow> name = BLOOM_NAME \<and> ks = map fst sample_fos_map \<and> ys = []
               \<and> (\<exists>us. xs = us @ [EvInsertProcessed sample_fos_map, EvCommit])))
   \<and> blooms (snd (batch_write deadlock_once deadlock_once sample_rows sample_fos_map empty_world)) BLOOM_NAME
       \<subseteq> blooms empty_world BLOOM_NAME \<union> dom (processed_papers (snd (batch_write deadlock_once deadlock_once sample_rows sample_fos_map empty_world)))
   \<and> set sample_rows \<subseteq> citations (snd (batch_write deadlock_once deadlock_once sample_rows sample_fos_map empty_world))
   \<and> fst ` set sample_fos_map \<subseteq> dom (processed_papers (snd (batch_write deadlock_once deadlock_once sample_rows sample_fos_map empty_world)))
   \<and> fst ` set sample_fos_map \<subseteq> blooms (snd (batch_write deadlock_once deadlock_once sample_rows sample_fos_map empty_world)) BLOOM_NAME"
proof -
  have run: "batch_write deadlock_once deadlock_once sample_rows sample_fos_map empty_world
      = (Inr (),
         empty_world\<lparr>citations := {(''P1'', ''R1'')},
           processed_papers := [''P1'' \<mapsto> [''Computer Science'']],
           blooms := (blooms empty_world)(BLOOM_NAME := {''P1''}),
           trace := [EvRollback, EvSleep 1, EvInsertCitations sample_rows, EvCommit,
             EvRollback, EvSleep 1, EvInsertProcessed sample_fos_map, EvCommit,
             EvBfMadd BLOOM_NAME [''P1'']]\<rparr>)"
    unfolding batch_write_def safe_insert_citations_def mark_processed_def
      insert_attempt_numbers mark_attempt_numbers
    by (simp add: insert_citations_try_cases mark_processed_try_cases deadlock_once_def
        empty_world_def sample_rows_def sample_fos_map_def Let_def MAX_INSERT_RETRIES_def
        MAX_MARK_RETRIES_def INSERT_BACKOFF_def world_ops bf_madd_def)
  have "batch_write deadlock_once deadlock_once sample_rows sample_fos_map empty_world = (fst (batch_write deadlock_once deadlock_once sample_rows sample_fos_map empty_world), snd (batch_write deadlock_once deadlock_once sample_rows sample_fos_map empty_world))"
    by simp
  from batch_write_order [OF this] run show ?thesis
    by simp
qed

subsection \<open>\<^verbatim>\<open>filter_new_ids\<close>\<close>

lemma zip_flags_true:
  "map fst (filter snd (zip xs (map f xs))) = filter f xs"
  by (induction xs) auto

lemma zip_flags_false:
  "map fst (filter (\<lambda>pf. \<not> snd pf) (zip xs (map f xs))) = filter (\<lambda>x. \<not> f x) xs"
  by (induction xs) auto

lemma visible_processed_trace: "visible_processed (w\<lparr>trace := t\<rparr>) = visible_processed w"
  by (simp add: visible_processed_def)

text \<open>
  When \<^verbatim>\<open>filter_new_ids\<close> returns, and the filter covers the keys of the table, it returns
  the candidates that have no row.
\<close>

lemma filter_new_ids_result:
  assumes "fst (filter_new_ids candidate_ids w) = Inr ids"
    and "dom (visible_processed w) \<subseteq> blooms w BLOOM_NAME"
  shows "set ids = {p \<in> set candidate_ids. visible_processed w p = None}"
proof -
  have "set ids = {p \<in> set candidate_ids. p \<notin> blooms w BLOOM_NAME}
                  \<union> {p \<in> set candidate_ids. p \<in> blooms w BLOOM_NAME
                                                \<and> visible_processed w p = None}"
    using assms(1)
    by (auto simp: filter_new_ids_def bf_mexists_def select_processed_def bf_madd_def
        zip_flags_true zip_flags_false log_event_def Let_def visible_processed_trace
        filter_empty_conv split: if_splits prod.splits)
  moreover have "visible_processed w p = None" if "p \<notin> blooms w BLOOM_NAME" for p
    using that assms(2) by (auto simp: domIff)
  ultimately show ?thesis by auto
qed

text \<open>
  Claim C2 fails on the code. The candidate list is \<open>[P1]\<close>, the filter covers the keys of
  the (empty) table and reports \<open>P1\<close>, which has no row. The claim has
  \<^verbatim>\<open>filter_new_ids\<close> return \<open>[P1]\<close>; the code sends \<^verbatim>\<open>BF.MADD\<close> with no item and raises
  ResponseError.
\<close>

theorem filter_new_ids_false_positive:
  "dom (visible_processed false_positive_world) \<subseteq> blooms false_positive_world BLOOM_NAME
   \<and> fst (filter_new_ids [''P1''] false_positive_world) = Inl ResponseError"
  by (simp add: filter_new_ids_def bf_mexists_def select_processed_def bf_madd_def
      visible_processed_def false_positive_world_def empty_world_def log_event_def)

text \<open>
  Claim C10. For a non-empty candidate list of which the filter reports at least one id,
  and of which no reported id has a row in the table, \<^verbatim>\<open>filter_new_ids\<close> queries the
  filter, selects the reported ids from the table, sends \<^verbatim>\<open>BF.MADD\<close> with an empty key
  set, and raises ResponseError instead of returning the ids.
\<close>

theorem filter_new_ids_empty_madd:
  assumes "candidate_ids \<noteq> []"
    and "\<exists>p \<in> set candidate_ids. p \<in> blooms w BLOOM_NAME"
    and "\<forall>p \<in> set candidate_ids. p \<in> blooms w BLOOM_NAME \<longrightarrow> visible_processed w p = None"
  shows "fst (filter_new_ids candidate_ids w) = Inl ResponseError
     \<and> trace (snd (filter_new_ids candidate_ids w))
         = trace w @ [EvBfMexists BLOOM_NAME candidate_ids,
                      EvSelectProcessed (filter (\<lambda>p. p \<in> blooms w BLOOM_NAME) candidate_ids),
                      EvBfMadd BLOOM_NAME []]"
proof -
  let ?ms = "filter (\<lambda>p. p \<in> blooms w BLOOM_NAME) candidate_ids"
  have ms: "?ms \<noteq> []" using assms(2) by (auto simp: filter_empty_conv)
  have seen: "filter (\<lambda>pid. visible_processed w pid \<noteq> None) (remdups ?ms) = []"
    using assms(3) by (auto simp: filter_empty_conv)
  show ?thesis
    using assms(1) ms seen
    by (simp add: filter_new_ids_def bf_mexists_def select_processed_def bf_madd_def
        zip_flags_true zip_flags_false log_event_def visible_processed_def)
qed

text \<open>Two candidates, of which the filter reports the second, which has no row.\<close>

theorem filter_new_ids_empty_madd_witness:
  "fst (filter_new_ids [''P0'', ''P1''] false_positive_world) = Inl ResponseError
   \<and> trace (snd (filter_new_ids [''P0'', ''P1''] false_positive_world))
       = [EvBfMexists BLOOM_NAME [''P0'', ''P1''], EvSelectProcessed [''P1''],
          EvBfMadd BLOOM_NAME []]"
  using filter_new_ids_empty_madd [of "[''P0'', ''P1'']" false_positive_world]
  by (simp add: false_positive_world_def empty_world_def visible_processed_def)

subsection \<open>Start of the worker\<close>

lemmas startup_ops = main_startup_def init_db_def commit_def llen_def log_event_def Let_def
  seed_frontier_def

text \<open>
  Claim C6, as amended. Started with \<^verbatim>\<open>--resume\<close> on an empty frontier, with no
  transaction open, the worker creates the schema if it is missing, reads the length of
  the frontier, and returns from \<^verbatim>\<open>main\<close>: the script ends with exit code 0, whatever the
  crawl loop would do, and the tables, the frontier and the filters are as they were.
\<close>

theorem resume_empty_frontier:
  assumes "paper_queue w = []" "tx_citations w = []" "tx_processed w = []"
  shows "\<exists>w'. crawler_script crawl_loop False True seeds w = Some (0, w')
     \<and> citations w' = citations w \<and> processed_papers w' = processed_papers w
     \<and> tx_citations w' = [] \<and> tx_processed w' = []
     \<and> paper_queue w' = [] \<and> blooms w' = blooms w
     \<and> trace w' = trace w @ [EvInitDb, EvCommit, EvLlen REDIS_QUEUE]"
  using assms
  by (simp add: crawler_script_def main_def startup_ops)

theorem resume_empty_frontier_witness:
  "\<exists>w'. crawler_script idle_loop False True [] empty_world = Some (0, w')
     \<and> citations w' = citations empty_world \<and> processed_papers w' = processed_papers empty_world
     \<and> tx_citations w' = [] \<and> tx_processed w' = []
     \<and> paper_queue w' = [] \<and> blooms w' = blooms empty_world
     \<and> trace w' = trace empty_world @ [EvInitDb, EvCommit, EvLlen REDIS_QUEUE]"
  by (rule resume_empty_frontier) (simp_all add: empty_world_def)

text \<open>
  Claim C6 as stated fails: the exit code of a resume on the empty frontier is 0, not a
  nonzero one.
\<close>

theorem resume_empty_frontier_exit_code_counterexample:
  "map_option fst (crawler_script idle_loop False True [] empty_world) = Some 0"
  by (simp add: crawler_script_def main_def startup_ops empty_world_def)

text \<open>
  In a fresh run every seed is pushed, in the order of the command line: the answer of
  \<^verbatim>\<open>BF.MADD\<close> is not looked at.
\<close>

lemma seed_frontier_pushes_all:
  assumes "seeds \<noteq> []"
  shows "paper_queue (snd (main_startup seeds True resume w)) = map envelope seeds"
  using assms
  by (simp add: startup_ops reset_bloom_filters_def truncate_tables_def bf_madd_def rpush_def
      case_prod_beta)

text \<open>
  The crawl loop, on the other hand, pushes a cited id that occurs twice only once: it
  keeps the ids for which \<^verbatim>\<open>BF.MADD\<close> answers "added".
\<close>

lemma batch_enqueue_deduplicates:
  "paper_queue (snd (batch_enqueue [(''P0'', ''P1''), (''P0'', ''P1'')] empty_world))
     = [envelope ''P1'']"
  by (simp add: batch_enqueue_def filter_new_ids_def bf_mexists_def bf_madd_def rpush_def
      log_event_def empty_world_def Let_def)

text \<open>
  Claim C8 fails on the code. A fresh run with the seeds \<open>[P1, P1]\<close> leaves \<open>P1\<close> twice on
  the frontier, although \<^verbatim>\<open>BF.MADD\<close> on the queue filter answers "added" for the first
  \<open>P1\<close> only.
\<close>

theorem fresh_duplicate_seeds:
  "paper_queue (snd (main_startup [''P1'', ''P1''] True False empty_world))
     = [envelope ''P1'', envelope ''P1'']
   \<and> fst (main_startup [''P1'', ''P1''] True False empty_world) = Inr Continue
   \<and> fst (bf_madd QUEUE_BLOOM_NAME [''P1'', ''P1''] empty_world) = Inr [True, False]"
  by (simp add: startup_ops reset_bloom_filters_def truncate_tables_def bf_madd_def rpush_def
      empty_world_def)

subsection \<open>\<^verbatim>\<open>send_request\<close> and its retries\<close>

lemma http_requests_append: "http_requests (a @ b) = http_requests a @ http_requests b"
  by (simp add: http_requests_def)

lemma retry_waits_append: "retry_waits (a @ b) = retry_waits a @ retry_waits b"
  by (simp add: retry_waits_def)

lemma http_requests_wait: "http_requests (EvRetryWait d # evs) = http_requests evs"
  by (simp add: http_requests_def)

lemma retry_waits_wait: "retry_waits (EvRetryWait d # evs) = d # retry_waits evs"
  by (simp add: retry_waits_def)

lemma once_requests: "http_requests (fst (send_request_once rq res)) = [rq]"
  by (auto simp: send_request_once_def http_requests_def
      split: http_result.splits option.splits sum.splits)

lemma once_waits: "retry_waits (fst (send_request_once rq res)) = []"
  by (auto simp: send_request_once_def retry_waits_def
      split: http_result.splits option.splits sum.splits)

lemma retrying_fail_step:
  assumes "retryable_failure rq (env n)" "n < MAX_REQUEST_ATTEMPTS"
  shows "retrying env rq n =
           (fst (send_request_once rq (env n)) @ EvRetryWait (wait_exponential n)
              # fst (retrying env rq (Suc n)),
            snd (retrying env rq (Suc n)))"
  using assms
  by (subst retrying.simps)
     (auto simp: retryable_failure_def split: prod.splits sum.splits)

lemma retrying_fail_last:
  assumes "retryable_failure rq (env n)" "n \<ge> MAX_REQUEST_ATTEMPTS"
  shows "retrying env rq n = send_request_once rq (env n)"
  using assms
  by (subst retrying.simps)
     (auto simp: retryable_failure_def split: prod.splits sum.splits)

lemma retrying_stop:
  assumes "\<not> retryable_failure rq (env n)"
  shows "retrying env rq n = send_request_once rq (env n)"
  using assms
  by (subst retrying.simps)
     (auto simp: retryable_failure_def split: prod.splits sum.splits)

lemma wait_exponential_bounds: "1 \<le> wait_exponential n \<and> wait_exponential n \<le> 30"
  by (simp add: wait_exponential_def)

lemma retrying_bounds:
  "length (http_requests (fst (retrying env rq n))) \<le> Suc (MAX_REQUEST_ATTEMPTS - n)
   \<and> (\<forall>d \<in> set (retry_waits (fst (retrying env rq n))). 1 \<le> d \<and> d \<le> 30)"
proof (induction "MAX_REQUEST_ATTEMPTS - n" arbitrary: n)
  case 0
  then have "n \<ge> MAX_REQUEST_ATTEMPTS" by simp
  then have "retrying env rq n = send_request_once rq (env n)"
    using retrying_fail_last [of rq env n] retrying_stop [of rq env n] by blast
  then show ?case by (simp add: once_requests once_waits)
next
  case (Suc m)
  show ?case
  proof (cases "retryable_failure rq (env n)")
    case True
    from Suc(2) have n: "n < MAX_REQUEST_ATTEMPTS" "m = MAX_REQUEST_ATTEMPTS - Suc n" by simp_all
    from Suc(1) [OF n(2)] retrying_fail_step [of rq env n, OF True n(1)] n(1) show ?thesis
      using wait_exponential_bounds [of n]
      by (auto simp: http_requests_append http_requests_wait retry_waits_append retry_waits_wait
          once_requests once_waits)
  next
    case False
    then have "retrying env rq n = send_request_once rq (env n)"
      using retrying_stop [of rq env n] by simp
    then show ?thesis by (simp add: once_requests once_waits)
  qed
qed

lemma retrying_all_fail:
  assumes "\<forall>k. n \<le> k \<and> k \<le> MAX_REQUEST_ATTEMPTS \<longrightarrow> retryable_failure rq (env k)"
    and "n \<le> MAX_REQUEST_ATTEMPTS"
  shows "snd (retrying env rq n) = snd (send_request_once rq (env MAX_REQUEST_ATTEMPTS))
     \<and> length (http_requests (fst (retrying env rq n))) = Suc (MAX_REQUEST_ATTEMPTS - n)
     \<and> retry_waits (fst (retrying env rq n)) = map wait_exponential [n ..< MAX_REQUEST_ATTEMPTS]"
  using assms
proof (induction "MAX_REQUEST_ATTEMPTS - n" arbitrary: n)
  case 0
  then have n: "n = MAX_REQUEST_ATTEMPTS" by simp
  with 0 have "retrying env rq n = send_request_once rq (env n)"
    using retrying_fail_last [of rq env n] by simp
  then show ?case using n by (simp add: once_requests once_waits)
next
  case (Suc m)
  from Suc(2) have n: "n < MAX_REQUEST_ATTEMPTS" "m = MAX_REQUEST_ATTEMPTS - Suc n" by simp_all
  have f: "retryable_failure rq (env n)" using Suc.prems by simp
  have "\<forall>k. Suc n \<le> k \<and> k \<le> MAX_REQUEST_ATTEMPTS \<longrightarrow> retryable_failure rq (env k)"
    using Suc.prems by simp
  from Suc(1) [OF n(2) this] n(1) retrying_fail_step [of rq env n, OF f n(1)] show ?case
    by (simp add: http_requests_append http_requests_wait retry_waits_append retry_waits_wait
        once_requests once_waits upt_conv_Cons)
qed

lemma retrying_success:
  assumes "\<forall>j. n \<le> j \<and> j < k \<longrightarrow> retryable_failure rq (env j)"
    and "snd (send_request_once rq (env k)) = Inr r"
    and "n \<le> k" "k \<le> MAX_REQUEST_ATTEMPTS"
  shows "snd (retrying env rq n) = Inr r
     \<and> length (http_requests (fst (retrying env rq n))) = Suc (k - n)"
  using assms
proof (induction "k - n" arbitrary: n)
  case 0
  then have n: "n = k" by simp
  have "\<not> retryable_failure rq (env k)" using 0(3) by (simp add: retryable_failure_def)
  then have "retrying env rq k = send_request_once rq (env k)"
    using retrying_stop [of rq env k] by simp
  then show ?case using n 0(3) by (simp add: once_requests)
next
  case (Suc m)
  from Suc(2) Suc.prems have n: "n < MAX_REQUEST_ATTEMPTS" "m = k - Suc n" "Suc n \<le> k" by simp_all
  have f: "retryable_failure rq (env n)" using Suc.prems Suc(2) by simp
  have "\<forall>j. Suc n \<le> j \<and> j < k \<longrightarrow> retryable_failure rq (env j)"
    using Suc.prems by simp
  from Suc(1) [OF n(2) this Suc.prems(2) n(3) Suc.prems(4)] retrying_fail_step [of rq env n, OF f n(1)] n(3)
  show ?case
    by (simp add: http_requests_append http_requests_wait once_requests Suc_diff_le)
qed


lemma time_sleep_ok:
  assumes "0 \<le> n" "n \<le> 9223372036"
  shows "time_sleep (real_of_int n) = Inr ()"
proof -
  have "real_of_int n \<le> 9223372036" using assms(2) by linarith
  then have "real_of_int n * 10 ^ 9 \<le> 9223372036 * 10 ^ 9" by (simp add: mult_right_mono)
  then show ?thesis using assms(1) by (simp add: time_sleep_def)
qed

lemma time_sleep_negative:
  assumes "- 9223372036 \<le> n" "n < 0"
  shows "time_sleep (real_of_int n) = Inl ValueError"
proof -
  have "- 9223372036 \<le> real_of_int n" using assms(1) by linarith
  then have "- 9223372036 * 10 ^ 9 \<le> real_of_int n * 10 ^ 9" by (simp add: mult_right_mono)
  then show ?thesis using assms(2) by (simp add: time_sleep_def)
qed

lemma time_sleep_at_ok:
  assumes "0 \<le> n" "n \<le> 9223372036" "(clock + real_of_int n) * 10 ^ 9 \<le> 2 ^ 63 - 1"
  shows "time_sleep_at clock (real_of_int n) = Inr ()"
  using assms(3) time_sleep_ok [OF assms(1,2)] by (simp add: time_sleep_at_def)

lemma time_sleep_at_negative:
  assumes "- 9223372036 \<le> n" "n < 0"
  shows "time_sleep_at clock (real_of_int n) = Inl ValueError"
  using time_sleep_negative [OF assms] by (simp add: time_sleep_at_def)

lemmas py_int_eval = py_int_def strip_def is_space_def is_digit_def digit_value_def
  MAX_STR_DIGITS_def

lemma py_int_2: "py_int ''2'' = Some 2"
  by (simp add: py_int_eval)

lemma py_int_minus_5: "py_int ''-5'' = Some (- 5)"
  by (simp add: py_int_eval)

lemma py_int_too_large: "py_int ''9223372037'' = Some 9223372037"
  by (simp add: py_int_eval)

lemma py_int_largest: "py_int ''9223372036'' = Some 9223372036"
  by (simp add: py_int_eval)

lemma send_request_all_fail:
  assumes "\<forall>k \<in> {1..5}. retryable_failure rq (env k)"
  shows "snd (send_request env rq) = snd (send_request_once rq (env 5))
     \<and> length (http_requests (fst (send_request env rq))) = 5
     \<and> retry_waits (fst (send_request env rq)) = [1, 2, 4, 8]"
proof -
  have "\<forall>k. 1 \<le> k \<and> k \<le> MAX_REQUEST_ATTEMPTS \<longrightarrow> retryable_failure rq (env k)"
    using assms by (simp add: MAX_REQUEST_ATTEMPTS_def)
  from retrying_all_fail [OF this] show ?thesis
    by (simp add: send_request_def MAX_REQUEST_ATTEMPTS_def wait_exponential_def upt_rec)
qed


lemma send_request_succeeds_at:
  assumes "k \<in> {1..5}" "\<forall>j \<in> {1..<k}. retryable_failure rq (env j)"
    and "snd (send_request_once rq (env k)) = Inr r"
  shows "snd (send_request env rq) = Inr r
     \<and> length (http_requests (fst (send_request env rq))) = k"
proof -
  have "\<forall>j. 1 \<le> j \<and> j < k \<longrightarrow> retryable_failure rq (env j)" using assms(2) by simp
  from retrying_success [OF this assms(3)] assms(1) show ?thesis
    by (simp add: send_request_def MAX_REQUEST_ATTEMPTS_def)
qed

text \<open>
  Claim C3, as amended. On a response with status 429 or 500: when the
  \<^verbatim>\<open>Retry-After\<close> header is present, not empty and parses as an integer \<open>n\<close> of seconds
  with \<open>0 \<le> n \<le> 9223372036\<close> whose deadline the monotonic clock of the host can hold
  (the reading of the clock plus \<open>n\<close> is at most \<open>2 ^ 63 - 1\<close> nanoseconds), the attempt
  sleeps \<open>n\<close> seconds and then raises a RequestException; when the header is absent,
  empty, does not parse, or parses as a negative integer that is not below
  \<open>- 9223372036\<close>, the attempt raises the RequestException without sleeping. A
  RequestException is retried: \<^verbatim>\<open>send_request\<close> makes at most 5 requests, every pause
  between two attempts is between 1 s and 30 s, an attempt that succeeds after retryable
  failures returns its response, and when all five attempts fail, the pauses are 1, 2, 4
  and 8 s and the error of the fifth attempt surfaces to the caller: there is no sixth
  attempt.
\<close>

theorem send_request_retry:
  assumes "status_code resp = 429 \<or> status_code resp = 500"
  shows "(\<forall>s n. retry_after resp = Some s \<and> s \<noteq> [] \<and> py_int s = Some n
             \<and> 0 \<le> n \<and> n \<le> 9223372036
             \<and> (clock_monotonic resp + real_of_int n) * 10 ^ 9 \<le> 2 ^ 63 - 1
           \<longrightarrow> send_request_once rq (Response resp)
                 = ([EvAcquire, EvHttp rq, EvSleep (real_of_int n)], Inl RequestException))
     \<and> (retry_after resp = None \<or> retry_after resp = Some []
          \<or> (\<exists>s. retry_after resp = Some s
                 \<and> (py_int s = None \<or> (\<exists>n. py_int s = Some n \<and> - 9223372036 \<le> n \<and> n < 0)))
           \<longrightarrow> send_request_once rq (Response resp)
                 = ([EvAcquire, EvHttp rq], Inl RequestException))
     \<and> is_request_exception RequestException
     \<and> length (http_requests (fst (send_request env rq))) \<le> 5
     \<and> (\<forall>d \<in> set (retry_waits (fst (send_request env rq))). 1 \<le> d \<and> d \<le> 30)
     \<and> ((\<forall>k \<in> {1..5}. retryable_failure rq (env k))
           \<longrightarrow> snd (send_request env rq) = snd (send_request_once rq (env 5))
               \<and> length (http_requests (fst (send_request env rq))) = 5
               \<and> retry_waits (fst (send_request env rq)) = [1, 2, 4, 8])
     \<and> (\<forall>k \<in> {1..5}. \<forall>r. (\<forall>j \<in> {1..<k}. retryable_failure rq (env j))
               \<and> snd (send_request_once rq (env k)) = Inr r
           \<longrightarrow> snd (send_request env rq) = Inr r
               \<and> length (http_requests (fst (send_request env rq))) = k)"
proof -
  have a: "send_request_once rq (Response resp)
             = ([EvAcquire, EvHttp rq, EvSleep (real_of_int n)], Inl RequestException)"
    if "retry_after resp = Some s" "s \<noteq> []" "py_int s = Some n" "0 \<le> n" "n \<le> 9223372036"
      "(clock_monotonic resp + real_of_int n) * 10 ^ 9 \<le> 2 ^ 63 - 1"
    for s n
    using that(1,2,3) assms time_sleep_at_ok [OF that(4,5,6)]
    by (auto simp: send_request_once_def)
  have b: "send_request_once rq (Response resp) = ([EvAcquire, EvHttp rq], Inl RequestException)"
    if "retry_after resp = None \<or> retry_after resp = Some []
          \<or> (\<exists>s. retry_after resp = Some s
                 \<and> (py_int s = None \<or> (\<exists>n. py_int s = Some n \<and> - 9223372036 \<le> n \<and> n < 0)))"
    using that assms time_sleep_at_negative [of _ "clock_monotonic resp"]
    by (auto simp: send_request_once_def)
  have c: "length (http_requests (fst (send_request env rq))) \<le> 5
     \<and> (\<forall>d \<in> set (retry_waits (fst (send_request env rq))). 1 \<le> d \<and> d \<le> 30)"
    using retrying_bounds [of env rq 1] by (simp add: send_request_def MAX_REQUEST_ATTEMPTS_def)
  show ?thesis
    using a b c send_request_all_fail [of rq env] send_request_succeeds_at [of _ rq env]
    by (intro conjI allI impI ballI) (blast | simp)+
qed

lemma throttled_retryable: "retryable_failure rq (Response (throttled ''2''))"
  using time_sleep_at_ok [of 2 1000]
  by (simp add: retryable_failure_def send_request_once_def throttled_def py_int_2)

text \<open>
  A server that answers 429 with \<^verbatim>\<open>Retry-After: 2\<close> to every attempt.
\<close>

theorem send_request_retry_witness:
  "send_request_once sample_request (Response (throttled ''2''))
     = ([EvAcquire, EvHttp sample_request, EvSleep 2], Inl RequestException)
   \<and> snd (send_request always_throttled sample_request) = Inl RequestException
   \<and> length (http_requests (fst (send_request always_throttled sample_request))) = 5
   \<and> retry_waits (fst (send_request always_throttled sample_request)) = [1, 2, 4, 8]"
  using send_request_retry [of "throttled ''2''" sample_request always_throttled]
    throttled_retryable [of sample_request]
  by (simp add: throttled_def py_int_2 always_throttled_def)

text \<open>
  Claim C3 as stated fails. With the network down the error surfaces after five requests,
  not at a sixth failure. \<^verbatim>\<open>Retry-After: -5\<close> parses as an integer but no sleep
  follows. \<^verbatim>\<open>Retry-After: 9223372037\<close> parses as an integer, but \<^verbatim>\<open>time.sleep\<close> raises
  OverflowError, which is not retried: one request is made. And with
  \<^verbatim>\<open>Retry-After: 9223372036\<close> on a host that has been up for 1000 seconds the deadline
  of the sleep does not fit, and \<^verbatim>\<open>time.sleep\<close> raises OSError.
\<close>

theorem send_request_sixth_failure_counterexample:
  "snd (send_request network_down sample_request) = Inl RequestException
   \<and> length (http_requests (fst (send_request network_down sample_request))) = 5
   \<and> py_int ''-5'' = Some (- 5)
   \<and> send_request_once sample_request (Response (throttled ''-5''))
       = ([EvAcquire, EvHttp sample_request], Inl RequestException)
   \<and> py_int ''9223372037'' = Some 9223372037
   \<and> send_request (always_answering (throttled ''9223372037'')) sample_request
       = ([EvAcquire, EvHttp sample_request], Inl OverflowError)
   \<and> py_int ''9223372036'' = Some 9223372036
   \<and> send_request_once sample_request (Response (throttled ''9223372036''))
       = ([EvAcquire, EvHttp sample_request], Inl OSError)"
proof -
  have "\<forall>k \<in> {1..5}. retryable_failure sample_request (network_down k)"
    by (simp add: retryable_failure_def send_request_once_def network_down_def)
  from send_request_all_fail [OF this]
  have "snd (send_request network_down sample_request) = Inl RequestException
     \<and> length (http_requests (fst (send_request network_down sample_request))) = 5"
    by (simp add: send_request_once_def network_down_def)
  moreover have "send_request_once sample_request (Response (throttled ''-5''))
       = ([EvAcquire, EvHttp sample_request], Inl RequestException)"
    using time_sleep_at_negative [of "- 5" 1000]
    by (simp add: send_request_once_def throttled_def py_int_minus_5)
  moreover have o: "send_request_once sample_request (Response (throttled ''9223372037''))
       = ([EvAcquire, EvHttp sample_request], Inl OverflowError)"
    by (simp add: send_request_once_def throttled_def py_int_too_large time_sleep_at_def
        time_sleep_def)
  moreover have "send_request (always_answering (throttled ''9223372037'')) sample_request
       = ([EvAcquire, EvHttp sample_request], Inl OverflowError)"
  proof -
    have "\<not> retryable_failure sample_request
            (always_answering (throttled ''9223372037'') 1)"
      using o by (simp add: retryable_failure_def always_answering_def)
    then have "retrying (always_answering (throttled ''9223372037'')) sample_request 1
        = send_request_once sample_request (always_answering (throttled ''9223372037'') 1)"
      using retrying_stop [of sample_request "always_answering (throttled ''9223372037'')" 1]
      by simp
    then show ?thesis using o by (simp add: send_request_def always_answering_def)
  qed
  moreover have "send_request_once sample_request (Response (throttled ''9223372036''))
       = ([EvAcquire, EvHttp sample_request], Inl OSError)"
    by (simp add: send_request_once_def throttled_def py_int_largest time_sleep_at_def
        time_sleep_def)
  ultimately show ?thesis using py_int_minus_5 py_int_too_large py_int_largest by simp
qed

text \<open>
  Claim C7, as amended. For a response whose status is not 2xx, not 429 and not 500: when
  the status is from 400 to 599, the attempt raises HTTPError, which is a RequestException
  and is retried like one, so that a server that keeps answering so gets five requests
  and the error surfaces after the fifth; for any other status (1xx, 3xx, 600 and above)
  no error is raised and the response is returned.
\<close>

theorem send_request_other_status:
  assumes "\<not> (200 \<le> status_code resp \<and> status_code resp < 300)"
    and "status_code resp \<noteq> 429" "status_code resp \<noteq> 500"
  shows "(400 \<le> status_code resp \<and> status_code resp < 600
           \<longrightarrow> send_request_once rq (Response resp)
                 = ([EvAcquire, EvHttp rq], Inl (HTTPError (status_code resp)))
               \<and> is_request_exception (HTTPError (status_code resp))
               \<and> ((\<forall>k \<in> {1..5}. env k = Response resp)
                     \<longrightarrow> snd (send_request env rq) = Inl (HTTPError (status_code resp))
                         \<and> length (http_requests (fst (send_request env rq))) = 5
                         \<and> retry_waits (fst (send_request env rq)) = [1, 2, 4, 8]))
     \<and> (\<not> (400 \<le> status_code resp \<and> status_code resp < 600)
           \<longrightarrow> send_request_once rq (Response resp) = ([EvAcquire, EvHttp rq], Inr resp)
               \<and> (env 1 = Response resp
                     \<longrightarrow> send_request env rq = ([EvAcquire, EvHttp rq], Inr resp)))"
proof (intro conjI impI)
  assume st: "400 \<le> status_code resp \<and> status_code resp < 600"
  show once: "send_request_once rq (Response resp)
                 = ([EvAcquire, EvHttp rq], Inl (HTTPError (status_code resp)))"
    using st assms by (simp add: send_request_once_def raise_for_status_def)
  show "is_request_exception (HTTPError (status_code resp))" by simp
  assume all: "\<forall>k \<in> {1..5}. env k = Response resp"
  then have "\<forall>k \<in> {1..5}. retryable_failure rq (env k)"
    using once by (simp add: retryable_failure_def)
  from send_request_all_fail [OF this] all once
  show "snd (send_request env rq) = Inl (HTTPError (status_code resp))"
    and "length (http_requests (fst (send_request env rq))) = 5"
    and "retry_waits (fst (send_request env rq)) = [1, 2, 4, 8]"
    by simp_all
next
  assume st: "\<not> (400 \<le> status_code resp \<and> status_code resp < 600)"
  show once: "send_request_once rq (Response resp) = ([EvAcquire, EvHttp rq], Inr resp)"
    using st assms by (simp add: send_request_once_def raise_for_status_def)
  assume e: "env 1 = Response resp"
  then have "\<not> retryable_failure rq (env 1)" using once by (simp add: retryable_failure_def)
  then have "retrying env rq 1 = send_request_once rq (env 1)"
    using retrying_stop [of rq env 1] by simp
  then show "send_request env rq = ([EvAcquire, EvHttp rq], Inr resp)"
    using e once by (simp add: send_request_def)
qed

text \<open>
  A server that answers 404 to every attempt.
\<close>

theorem send_request_other_status_witness:
  "send_request_once sample_request (Response not_found)
     = ([EvAcquire, EvHttp sample_request], Inl (HTTPError 404))
   \<and> is_request_exception (HTTPError 404)
   \<and> snd (send_request always_not_found sample_request) = Inl (HTTPError 404)
   \<and> length (http_requests (fst (send_request always_not_found sample_request))) = 5
   \<and> retry_waits (fst (send_request always_not_found sample_request)) = [1, 2, 4, 8]"
  using send_request_other_status [of not_found sample_request always_not_found]
  by (simp add: not_found_def always_not_found_def)

text \<open>
  Claim C7 as stated fails: a 404 is reattempted, and surfaces only after five requests.
\<close>

theorem send_request_not_found_counterexample:
  "length (http_requests (fst (send_request always_not_found sample_request))) = 5
   \<and> snd (send_request always_not_found sample_request) = Inl (HTTPError 404)"
proof -
  have "\<forall>k \<in> {1..5}. retryable_failure sample_request (always_not_found k)"
    by (simp add: retryable_failure_def send_request_once_def always_not_found_def
        not_found_def raise_for_status_def)
  from send_request_all_fail [OF this] show ?thesis
    by (simp add: send_request_once_def always_not_found_def not_found_def raise_for_status_def)
qed

subsection \<open>Pagination of the references\<close>

lemma send_request_events:
  "\<forall>e \<in> set (fst (send_request_once rq res)).
     e = EvAcquire \<or> e = EvHttp rq \<or> (\<exists>d. e = EvSleep d)"
  by (auto simp: send_request_once_def
      split: http_result.splits option.splits sum.splits if_splits)

lemma retrying_http:
  "EvHttp r \<in> set (fst (retrying env rq n)) \<Longrightarrow> r = rq"
proof (induction "MAX_REQUEST_ATTEMPTS - n" arbitrary: n)
  case 0
  then have "n \<ge> MAX_REQUEST_ATTEMPTS" by simp
  then have "retrying env rq n = send_request_once rq (env n)"
    using retrying_fail_last [of rq env n] retrying_stop [of rq env n] by blast
  with 0(2) send_request_events [of rq "env n"] show ?case by auto
next
  case (Suc m)
  show ?case
  proof (cases "retryable_failure rq (env n)")
    case True
    from Suc(2) have n: "n < MAX_REQUEST_ATTEMPTS" "m = MAX_REQUEST_ATTEMPTS - Suc n" by simp_all
    from retrying_fail_step [of rq env n, OF True n(1)] Suc(3)
    have "EvHttp r \<in> set (fst (send_request_once rq (env n)))
        \<or> EvHttp r \<in> set (fst (retrying env rq (Suc n)))"
      by auto
    then show ?thesis using Suc(1) [OF n(2)] send_request_events [of rq "env n"] by auto
  next
    case False
    then have "retrying env rq n = send_request_once rq (env n)"
      using retrying_stop [of rq env n] by simp
    with Suc(3) send_request_events [of rq "env n"] show ?thesis by auto
  qed
qed

lemma http_requests_set: "r \<in> set (http_requests evs) \<longleftrightarrow> EvHttp r \<in> set evs"
  by (induction evs) (auto simp: http_requests_def split: event.splits)

lemma page_events_http:
  "r \<in> set (http_requests (page_events env pid offset)) \<Longrightarrow> r = references_request pid offset"
  unfolding page_events_def send_request_def http_requests_set by (rule retrying_http)

text \<open>One iteration of the loop.\<close>

lemma fetch_pages_loop_cases:
  "fst (fetch_pages_loop env pid total_refs offset rows) = []
   \<or> (offset < total_refs \<and> offset \<le> MAX_OFFSET
       \<and> fst (fetch_pages_loop env pid total_refs offset rows) = page_events env pid offset)
   \<or> (offset < total_refs \<and> offset \<le> MAX_OFFSET
       \<and> (\<exists>nxt rows'. page_continues env pid offset nxt
             \<and> fst (fetch_pages_loop env pid total_refs offset rows)
                 = page_events env pid offset @ fst (fetch_pages_loop env pid total_refs nxt rows')))"
proof -
  define L where "L = fetch_pages_loop env pid total_refs offset rows"
  define R where "R = (\<lambda>nxt rows'. fetch_pages_loop env pid total_refs nxt rows')"
  obtain evs res where sr:
    "send_request (http env offset) (references_request pid offset) = (evs, res)"
    by (cases "send_request (http env offset) (references_request pid offset)")
  have eq: "L =
     (if offset < total_refs \<and> offset \<le> MAX_OFFSET then
        if shutdown_set env offset then ([], Inr (pid, rows))
        else
          (case res of
             Inl x \<Rightarrow>
               if is_request_exception x then (evs, Inr (pid, rows)) else (evs, Inl x)
           | Inr resp \<Rightarrow>
               (case body resp of
                  None \<Rightarrow> (evs, Inl JSONDecodeError)
                | Some j \<Rightarrow>
                    (case dict_get j ''data'' (JArr []) of
                       Inl x \<Rightarrow> (evs, Inl x)
                     | Inr data \<Rightarrow>
                         if \<not> truthy data then (evs, Inr (pid, rows))
                         else
                           (case py_iter data of
                              Inl x \<Rightarrow> (evs, Inl x)
                            | Inr entries \<Rightarrow>
                                (case collect_rows pid entries rows of
                                   Inl x \<Rightarrow> (evs, Inl x)
                                 | Inr rows' \<Rightarrow>
                                     (case dict_get j ''next'' JNull of
                                        Inl x \<Rightarrow> (evs, Inl x)
                                      | Inr nxt \<Rightarrow>
                                          if \<not> isinstance_int nxt \<or> int_value nxt \<le> offset
                                             \<or> int_value nxt > MAX_OFFSET
                                          then (evs, Inr (pid, rows'))
                                          else
                                            (case R (int_value nxt) rows' of
                                               (evs', r) \<Rightarrow> (evs @ evs', r))))))))
      else ([], Inr (pid, rows)))"
    unfolding L_def R_def
    apply (subst fetch_pages_loop.simps)
    unfolding sr prod.case
    apply (rule refl)
    done
  have pe: "page_events env pid offset = evs" by (simp add: page_events_def sr)
  have pc: "page_continues env pid offset (int_value nxt)"
    if "res = Inr resp" "body resp = Some j" "dict_get j ''data'' (JArr []) = Inr data"
      "truthy data" "dict_get j ''next'' JNull = Inr nxt" "isinstance_int nxt"
      "offset < int_value nxt" "int_value nxt \<le> MAX_OFFSET"
    for resp j data nxt
    using that by (simp add: page_continues_def sr)
  have stop: "fst L = [] \<or> fst L = evs"
    if "\<not> (\<exists>resp j data entries rows' nxt. res = Inr resp \<and> body resp = Some j
           \<and> dict_get j ''data'' (JArr []) = Inr data \<and> truthy data
           \<and> py_iter data = Inr entries \<and> collect_rows pid entries rows = Inr rows'
           \<and> dict_get j ''next'' JNull = Inr nxt \<and> isinstance_int nxt
           \<and> offset < int_value nxt \<and> int_value nxt \<le> MAX_OFFSET)"
    using that unfolding eq
    by (auto split: sum.splits option.splits)
  have go: "fst L = [] \<or> fst L = evs @ fst (R (int_value nxt) rows')"
    if "res = Inr resp" "body resp = Some j" "dict_get j ''data'' (JArr []) = Inr data"
      "truthy data" "py_iter data = Inr entries" "collect_rows pid entries rows = Inr rows'"
      "dict_get j ''next'' JNull = Inr nxt" "isinstance_int nxt"
      "offset < int_value nxt" "int_value nxt \<le> MAX_OFFSET"
    for resp j data entries rows' nxt
    using that unfolding eq by (simp add: case_prod_beta)
  have guard: "offset < total_refs \<and> offset \<le> MAX_OFFSET" if "fst L \<noteq> []"
    using that unfolding eq by (simp split: if_splits)
  have "fst L = []
   \<or> (offset < total_refs \<and> offset \<le> MAX_OFFSET \<and> fst L = evs)
   \<or> (offset < total_refs \<and> offset \<le> MAX_OFFSET
       \<and> (\<exists>nxt rows'. page_continues env pid offset nxt \<and> fst L = evs @ fst (R nxt rows')))"
  proof (cases "fst L = []")
    case True
    then show ?thesis by simp
  next
    case False
    note g = guard [OF False]
    show ?thesis
    proof (cases "\<exists>resp j data entries rows' nxt. res = Inr resp \<and> body resp = Some j
           \<and> dict_get j ''data'' (JArr []) = Inr data \<and> truthy data
           \<and> py_iter data = Inr entries \<and> collect_rows pid entries rows = Inr rows'
           \<and> dict_get j ''next'' JNull = Inr nxt \<and> isinstance_int nxt
           \<and> offset < int_value nxt \<and> int_value nxt \<le> MAX_OFFSET")
      case c: True
      then obtain resp j data entries rows' nxt where h:
        "res = Inr resp" "body resp = Some j" "dict_get j ''data'' (JArr []) = Inr data"
        "truthy data" "py_iter data = Inr entries" "collect_rows pid entries rows = Inr rows'"
        "dict_get j ''next'' JNull = Inr nxt" "isinstance_int nxt"
        "offset < int_value nxt" "int_value nxt \<le> MAX_OFFSET"
        by blast
      from go [OF h] False have "fst L = evs @ fst (R (int_value nxt) rows')" by simp
      moreover have "page_continues env pid offset (int_value nxt)"
        using pc [OF h(1,2,3,4,7,8,9,10)] .
      ultimately show ?thesis using g by blast
    next
      case c: False
      from stop [OF c] False g show ?thesis by simp
    qed
  qed
  then show ?thesis unfolding L_def R_def pe .
qed


lemma page_continues_bounds:
  assumes "page_continues env pid offset offset'"
  shows "offset < offset' \<and> offset' \<le> MAX_OFFSET"
proof (cases "snd (send_request (http env offset) (references_request pid offset))")
  case (Inl x)
  with assms show ?thesis by (simp add: page_continues_def)
next
  case (Inr resp)
  show ?thesis
  proof (cases "body resp")
    case None
    with assms Inr show ?thesis by (simp add: page_continues_def)
  next
    case (Some j)
    with assms Inr show ?thesis
      by (cases "dict_get j ''data'' (JArr [])"; cases "dict_get j ''next'' JNull")
         (simp_all add: page_continues_def)
  qed
qed

lemma fetch_pages_loop_pages:
  "\<exists>ps. fst (fetch_pages_loop env pid total_refs offset rows)
          = concat (map (page_events env pid) ps)
     \<and> successively (page_continues env pid) ps
     \<and> (ps \<noteq> [] \<longrightarrow> hd ps = offset)
     \<and> (\<forall>p \<in> set ps. offset \<le> p \<and> p \<le> MAX_OFFSET \<and> p < total_refs)
     \<and> length ps \<le> nat (MAX_OFFSET + 1 - offset)"
proof (induction "nat (MAX_OFFSET + 1 - offset)" arbitrary: offset rows rule: less_induct)
  case less
  from fetch_pages_loop_cases [of env pid total_refs offset rows]
  consider (none) "fst (fetch_pages_loop env pid total_refs offset rows) = []"
    | (one) "offset < total_refs" "offset \<le> MAX_OFFSET"
        "fst (fetch_pages_loop env pid total_refs offset rows) = page_events env pid offset"
    | (more) nxt rows' where "offset < total_refs" "offset \<le> MAX_OFFSET"
        "page_continues env pid offset nxt"
        "fst (fetch_pages_loop env pid total_refs offset rows)
           = page_events env pid offset @ fst (fetch_pages_loop env pid total_refs nxt rows')"
    by blast
  then show ?case
  proof cases
    case none
    then show ?thesis by (intro exI [of _ "[]"]) simp
  next
    case one
    then show ?thesis by (intro exI [of _ "[offset]"]) simp
  next
    case more
    from page_continues_bounds [OF more(3)] have b: "offset < nxt" "nxt \<le> MAX_OFFSET" by simp_all
    then have "nat (MAX_OFFSET + 1 - nxt) < nat (MAX_OFFSET + 1 - offset)" by simp
    from less [OF this, of rows']
    obtain ps where ps: "fst (fetch_pages_loop env pid total_refs nxt rows')
          = concat (map (page_events env pid) ps)"
      "successively (page_continues env pid) ps" "ps \<noteq> [] \<longrightarrow> hd ps = nxt"
      "\<forall>p \<in> set ps. nxt \<le> p \<and> p \<le> MAX_OFFSET \<and> p < total_refs"
      "length ps \<le> nat (MAX_OFFSET + 1 - nxt)"
      by blast
    have "successively (page_continues env pid) (offset # ps)"
      using ps(2,3) more(3) by (cases ps) simp_all
    moreover have "length (offset # ps) \<le> nat (MAX_OFFSET + 1 - offset)"
      using ps(5) b by simp
    moreover have "\<forall>p \<in> set (offset # ps). offset \<le> p \<and> p \<le> MAX_OFFSET \<and> p < total_refs"
      using ps(4) b more(1,2) by auto
    ultimately show ?thesis
      using more(4) ps(1) by (intro exI [of _ "offset # ps"]) simp
  qed
qed

lemma successively_not_last:
  "successively P ps \<Longrightarrow> p \<in> set ps \<Longrightarrow> p \<noteq> last ps \<Longrightarrow> \<exists>q \<in> set ps. P p q"
proof (induction ps rule: induct_list012)
  case (3 x y zs)
  then show ?case by (cases "p = x") auto
qed simp_all


text \<open>
  Past offset 0 the \<^verbatim>\<open>next\<close> of a page that continues is a JSON integer (at offset 0
  or below, the JSON \<^verbatim>\<open>true\<close> would pass \<^verbatim>\<open>isinstance(nxt, int)\<close> as the integer 1).
\<close>

lemma page_continues_int:
  assumes "page_continues env pid offset offset'" "0 < offset"
  shows "\<exists>resp j. snd (send_request (http env offset) (references_request pid offset)) = Inr resp
           \<and> body resp = Some j \<and> dict_get j ''next'' JNull = Inr (JInt offset')"
proof (cases "snd (send_request (http env offset) (references_request pid offset))")
  case (Inl x)
  with assms show ?thesis by (simp add: page_continues_def)
next
  case (Inr resp)
  show ?thesis
  proof (cases "body resp")
    case None
    with assms Inr show ?thesis by (simp add: page_continues_def)
  next
    case (Some j)
    show ?thesis
    proof (cases "dict_get j ''next'' JNull")
      case (Inl x)
      with assms Inr Some show ?thesis
        by (cases "dict_get j ''data'' (JArr [])") (simp_all add: page_continues_def)
    next
      case n: (Inr nxt)
      with assms Inr Some have "isinstance_int nxt \<and> int_value nxt = offset' \<and> offset < offset'"
        by (cases "dict_get j ''data'' (JArr [])") (simp_all add: page_continues_def)
      with assms(2) have "nxt = JInt offset'"
        by (cases nxt) (auto split: if_splits)
      with Inr Some n show ?thesis by simp
    qed
  qed
qed

text \<open>
  Claim C4. \<^verbatim>\<open>fetch_pages\<close> is a total function: for every behaviour of the server and
  of the shutdown event it returns or raises, after the requests of at most
  \<open>10000 - start_offset\<close> pages. Its log is the log of the requests of a list \<open>ps\<close> of
  page offsets that starts at \<open>start_offset\<close>. Every request has the parameters
  \<^verbatim>\<open>limit\<close> = 99 and \<^verbatim>\<open>offset\<close> = \<open>p\<close> for a page \<open>p\<close> of \<open>ps\<close> with \<open>p \<le> 9999\<close>. Each
  page of \<open>ps\<close> but the last is followed by the page that its response names: the response
  has a non-empty \<^verbatim>\<open>data\<close> and a \<^verbatim>\<open>next\<close> that is an integer, greater than the offset
  of the page and at most 9999. So a page with an empty \<^verbatim>\<open>data\<close>, or with a \<^verbatim>\<open>next\<close>
  that is missing, no integer, not greater or beyond 9999, is the last one.
\<close>

theorem fetch_pages_offsets:
  "\<exists>ps. fst (fetch_pages env pid start_offset total_refs)
          = concat (map (page_events env pid) ps)
     \<and> successively (page_continues env pid) ps
     \<and> (ps \<noteq> [] \<longrightarrow> hd ps = start_offset)
     \<and> (\<forall>p \<in> set ps. p \<noteq> last ps \<longrightarrow> (\<exists>q \<in> set ps. page_continues env pid p q))
     \<and> length ps \<le> nat (10000 - start_offset)
     \<and> (\<forall>r \<in> set (http_requests (fst (fetch_pages env pid start_offset total_refs))).
           \<exists>p \<in> set ps. r = references_request pid p
             \<and> start_offset \<le> p \<and> p \<le> 9999 \<and> p < total_refs
             \<and> map_of (req_params r) ''limit'' = Some (JInt 99)
             \<and> map_of (req_params r) ''offset'' = Some (JInt p))"
proof -
  from fetch_pages_loop_pages [of env pid total_refs start_offset "[]"]
  obtain ps where ps: "fst (fetch_pages env pid start_offset total_refs)
          = concat (map (page_events env pid) ps)"
    "successively (page_continues env pid) ps" "ps \<noteq> [] \<longrightarrow> hd ps = start_offset"
    "\<forall>p \<in> set ps. start_offset \<le> p \<and> p \<le> MAX_OFFSET \<and> p < total_refs"
    "length ps \<le> nat (MAX_OFFSET + 1 - start_offset)"
    unfolding fetch_pages_def by blast
  have last: "\<forall>p \<in> set ps. p \<noteq> last ps \<longrightarrow> (\<exists>q \<in> set ps. page_continues env pid p q)"
    using successively_not_last [OF ps(2)] by blast
  have rq: "\<exists>p \<in> set ps. r = references_request pid p
             \<and> start_offset \<le> p \<and> p \<le> 9999 \<and> p < total_refs
             \<and> map_of (req_params r) ''limit'' = Some (JInt 99)
             \<and> map_of (req_params r) ''offset'' = Some (JInt p)"
    if "r \<in> set (http_requests (fst (fetch_pages env pid start_offset total_refs)))" for r
  proof -
    from that obtain p where p: "p \<in> set ps" "r \<in> set (http_requests (page_events env pid p))"
      unfolding ps(1) by (auto simp: http_requests_def)
    from page_events_http [OF p(2)] have "r = references_request pid p" .
    with p(1) ps(4) show ?thesis
      by (auto simp: references_request_def MAX_OFFSET_def REF_PAGE_LIMIT_def)
  qed
  show ?thesis
    using ps(1,2,3,5) last rq by (intro exI [of _ ps]) (simp add: MAX_OFFSET_def)
qed

text \<open>
  Two pages: the first names offset 198, the \<^verbatim>\<open>next\<close> of the second is null.
\<close>

lemma two_pages_run:
  "fetch_pages two_pages ''P1'' 99 250
     = ([EvAcquire, EvHttp (references_request ''P1'' 99),
         EvAcquire, EvHttp (references_request ''P1'' 198)],
        Inr (''P1'', [(''P1'', JStr ''R100''), (''P1'', JStr ''R199'')]))"
  by (simp add: fetch_pages_def fetch_pages_loop.simps send_request_def retrying.simps
      send_request_once_def raise_for_status_def two_pages_def reference_page_def
      MAX_OFFSET_def)

theorem fetch_pages_offsets_witness:
  "http_requests (fst (fetch_pages two_pages ''P1'' 99 250))
     = [references_request ''P1'' 99, references_request ''P1'' 198]
   \<and> (\<exists>ps. fst (fetch_pages two_pages ''P1'' 99 250)
          = concat (map (page_events two_pages ''P1'') ps)
     \<and> successively (page_continues two_pages ''P1'') ps
     \<and> (ps \<noteq> [] \<longrightarrow> hd ps = 99)
     \<and> (\<forall>p \<in> set ps. p \<noteq> last ps \<longrightarrow> (\<exists>q \<in> set ps. page_continues two_pages ''P1'' p q))
     \<and> length ps \<le> nat (10000 - 99)
     \<and> (\<forall>r \<in> set (http_requests (fst (fetch_pages two_pages ''P1'' 99 250))).
           \<exists>p \<in> set ps. r = references_request ''P1'' p
             \<and> 99 \<le> p \<and> p \<le> 9999 \<and> p < 250
             \<and> map_of (req_params r) ''limit'' = Some (JInt 99)
             \<and> map_of (req_params r) ''offset'' = Some (JInt p)))"
proof
  show "http_requests (fst (fetch_pages two_pages ''P1'' 99 250))
     = [references_request ''P1'' 99, references_request ''P1'' 198]"
    by (simp add: two_pages_run http_requests_def)
next
  show "\<exists>ps. fst (fetch_pages two_pages ''P1'' 99 250)
          = concat (map (page_events two_pages ''P1'') ps)
     \<and> successively (page_continues two_pages ''P1'') ps
     \<and> (ps \<noteq> [] \<longrightarrow> hd ps = 99)
     \<and> (\<forall>p \<in> set ps. p \<noteq> last ps \<longrightarrow> (\<exists>q \<in> set ps. page_continues two_pages ''P1'' p q))
     \<and> length ps \<le> nat (10000 - 99)
     \<and> (\<forall>r \<in> set (http_requests (fst (fetch_pages two_pages ''P1'' 99 250))).
           \<exists>p \<in> set ps. r = references_request ''P1'' p
             \<and> 99 \<le> p \<and> p \<le> 9999 \<and> p < 250
             \<and> map_of (req_params r) ''limit'' = Some (JInt 99)
             \<and> map_of (req_params r) ''offset'' = Some (JInt p))"
    by (rule fetch_pages_offsets)
qed

end
